theory Spec2Isabelle
  imports Complex_Main
begin

section \<open>Numbers, tensors and errors\<close>

text \<open>
  The trainer computes with Python floats and torch float tensors. They are modelled by
  the reals extended with the two infinities and NaN, with the IEEE rules for the special
  values and without rounding, overflow or signed zeros: \<open>Fin r\<close> is the finite
  value \<open>r\<close>. Python integers (pixel counts, batch indices, spacings) are \<open>int\<close>.
\<close>

datatype fl = Fin real | PInf | NInf | NaN

fun fl_add :: "fl \<Rightarrow> fl \<Rightarrow> fl" where
  "fl_add (Fin a) (Fin b) = Fin (a + b)"
| "fl_add NaN y = NaN"
| "fl_add x NaN = NaN"
| "fl_add PInf NInf = NaN"
| "fl_add NInf PInf = NaN"
| "fl_add PInf y = PInf"
| "fl_add x PInf = PInf"
| "fl_add NInf y = NInf"
| "fl_add x NInf = NInf"

fun fl_neg :: "fl \<Rightarrow> fl" where
  "fl_neg (Fin a) = Fin (- a)"
| "fl_neg PInf = NInf"
| "fl_neg NInf = PInf"
| "fl_neg NaN = NaN"

definition fl_sub :: "fl \<Rightarrow> fl \<Rightarrow> fl" where
  "fl_sub x y = fl_add x (fl_neg y)"

text \<open>Division of floats and tensors: a zero divisor raises nothing, it gives an
  infinity or, for \<open>0/0\<close>, NaN.\<close>

fun fl_div :: "fl \<Rightarrow> fl \<Rightarrow> fl" where
  "fl_div (Fin a) (Fin b) =
     (if b \<noteq> 0 then Fin (a / b)
      else if a = 0 then NaN
      else if 0 < a then PInf else NInf)"
| "fl_div NaN y = NaN"
| "fl_div x NaN = NaN"
| "fl_div (Fin a) PInf = Fin 0"
| "fl_div (Fin a) NInf = Fin 0"
| "fl_div PInf (Fin b) = (if 0 \<le> b then PInf else NInf)"
| "fl_div NInf (Fin b) = (if 0 \<le> b then NInf else PInf)"
| "fl_div PInf y = NaN"
| "fl_div NInf y = NaN"

fun fl_exp :: "fl \<Rightarrow> fl" where
  "fl_exp (Fin a) = Fin (exp a)"
| "fl_exp PInf = PInf"
| "fl_exp NInf = Fin 0"
| "fl_exp NaN = NaN"

fun fl_log :: "fl \<Rightarrow> fl" where
  "fl_log (Fin a) = (if 0 < a then Fin (ln a) else if a = 0 then NInf else NaN)"
| "fl_log PInf = PInf"
| "fl_log NInf = NaN"
| "fl_log NaN = NaN"

definition sigmoid :: "real \<Rightarrow> real" where
  "sigmoid a = 1 / (1 + exp (- a))"

fun fl_sigmoid :: "fl \<Rightarrow> fl" where
  "fl_sigmoid (Fin a) = Fin (sigmoid a)"
| "fl_sigmoid PInf = Fin 1"
| "fl_sigmoid NInf = Fin 0"
| "fl_sigmoid NaN = NaN"

text \<open>\<open>torch.sum\<close>: the sum of no element is 0.\<close>

fun fl_sum :: "fl list \<Rightarrow> fl" where
  "fl_sum [] = Fin 0"
| "fl_sum (x # xs) = fl_add x (fl_sum xs)"

text \<open>\<open>torch.mean\<close> and \<open>np.mean\<close>: the sum divided by the number of elements, so
  NaN for no element.\<close>

definition fl_mean :: "fl list \<Rightarrow> fl" where
  "fl_mean xs = fl_div (fl_sum xs) (Fin (real (length xs)))"

text \<open>
  A tensor is a nested list: a label map is batch x height x width, an image of class
  scores is class x height x width, the model's output is batch x class x height x width.
  \<open>flat3\<close> lists the elements in row-major order and \<open>shape3\<close> is the shape as the
  lengths of the rows.
\<close>

type_synonym labels = "int list list list"
type_synonym tensor3 = "fl list list list"
type_synonym tensor4 = "fl list list list list"

definition flat3 :: "'a list list list \<Rightarrow> 'a list" where
  "flat3 t = concat (map concat t)"

definition shape3 :: "'a list list list \<Rightarrow> nat list list" where
  "shape3 t = map (map length) t"

datatype error = ZeroDivisionError | IndexError | ValueError | RuntimeError

section \<open>Per-class loss\<close>

text \<open>
  \<^verbatim>\<open>get_per_class_loss(loss, target, loss_vec)\<close> of \<^verbatim>\<open>segmentation_trainer.py\<close> and
  \<^verbatim>\<open>fcn_2class.py\<close> (the same code). \<open>target.eq(i)\<close> is the mask,
  \<open>torch.masked_select\<close> the selection; a loss whose shape is not the mask's raises
  (broadcasting of unequal shapes is not modelled: the trainer passes a loss of the
  target's shape).
\<close>

definition eq_mask :: "labels \<Rightarrow> int \<Rightarrow> bool list list list" where
  "eq_mask target i = map (map (map (\<lambda>t. t = i))) target"

definition masked_select :: "tensor3 \<Rightarrow> bool list list list \<Rightarrow> error + fl list" where
  "masked_select lss msk =
     (if shape3 lss = shape3 msk
      then Inr (map fst (filter snd (zip (flat3 lss) (flat3 msk))))
      else Inl RuntimeError)"

definition mask_sum :: "bool list list list \<Rightarrow> nat" where
  "mask_sum msk = length (filter id (flat3 msk))"

fun per_class_loss_loop :: "tensor3 \<Rightarrow> labels \<Rightarrow> nat list \<Rightarrow> fl list \<Rightarrow> error + fl list" where
  "per_class_loss_loop lss target [] loss_vec = Inr loss_vec"
| "per_class_loss_loop lss target (i # rest) loss_vec =
     (let msk = eq_mask target (int i);
          total_num = mask_sum msk
      in case masked_select lss msk of
           Inl e \<Rightarrow> Inl e
         | Inr sel \<Rightarrow>
             per_class_loss_loop lss target rest
               (loss_vec[i := (if total_num > 0
                               then fl_div (fl_sum sel) (Fin (real total_num))
                               else fl_sum sel)]))"

definition get_per_class_loss :: "tensor3 \<Rightarrow> labels \<Rightarrow> fl list \<Rightarrow> error + fl list" where
  "get_per_class_loss lss target loss_vec =
     per_class_loss_loop lss target [0..<length loss_vec] loss_vec"

section \<open>Confusion matrix\<close>

text \<open>
  \<^verbatim>\<open>get_per_class_accuracy(pred, target, acc_dict)\<close>. \<open>prediction_error i j\<close> counts the
  positions where the prediction is \<open>i\<close> and the target is \<open>j\<close>; numpy raises for
  arrays of different shapes. The loops run \<open>i\<close> over the rows and \<open>j\<close> over the
  length of row \<open>i\<close>, and add to \<^verbatim>\<open>acc_dict[j][i]\<close>; an index out of range raises.
\<close>

definition prediction_error :: "labels \<Rightarrow> labels \<Rightarrow> int \<Rightarrow> int \<Rightarrow> nat" where
  "prediction_error pred target predicted_label target_label =
     length (filter (\<lambda>(p, t). p - predicted_label = 0 \<and> t - target_label = 0)
               (zip (flat3 pred) (flat3 target)))"

fun acc_inner :: "labels \<Rightarrow> labels \<Rightarrow> nat \<Rightarrow> nat list \<Rightarrow> int list list \<Rightarrow> error + int list list" where
  "acc_inner pred target i [] acc_dict = Inr acc_dict"
| "acc_inner pred target i (j # rest) acc_dict =
     (if \<not> (j < length acc_dict \<and> i < length (acc_dict ! j)) then Inl IndexError
      else if shape3 pred \<noteq> shape3 target then Inl ValueError
      else acc_inner pred target i rest
             (acc_dict[j := (acc_dict ! j)[i := acc_dict ! j ! i
                                + int (prediction_error pred target (int i) (int j))]]))"

fun acc_outer :: "labels \<Rightarrow> labels \<Rightarrow> nat list \<Rightarrow> int list list \<Rightarrow> error + int list list" where
  "acc_outer pred target [] acc_dict = Inr acc_dict"
| "acc_outer pred target (i # rest) acc_dict =
     (if \<not> i < length acc_dict then Inl IndexError
      else case acc_inner pred target i [0..<length (acc_dict ! i)] acc_dict of
             Inl e \<Rightarrow> Inl e
           | Inr acc_dict' \<Rightarrow> acc_outer pred target rest acc_dict')"

definition get_per_class_accuracy :: "labels \<Rightarrow> labels \<Rightarrow> int list list \<Rightarrow> error + int list list" where
  "get_per_class_accuracy pred target acc_dict =
     acc_outer pred target [0..<length acc_dict] acc_dict"

section \<open>The model's output: argmax, pixel counts, prior correction\<close>

definition bind_err :: "error + 'a \<Rightarrow> ('a \<Rightarrow> error + 'b) \<Rightarrow> error + 'b" where
  "bind_err m f = (case m of Inl e \<Rightarrow> Inl e | Inr x \<Rightarrow> f x)"

text \<open>
  \<open>torch.argmax\<close> along the class axis: the index of the first maximal score, a NaN
  counting as greater than every number (the first NaN wins). \<open>pixel_columns\<close> turns a
  class x height x width image into height x width columns of class scores.
\<close>

fun fl_less :: "fl \<Rightarrow> fl \<Rightarrow> bool" where
  "fl_less (Fin a) (Fin b) = (a < b)"
| "fl_less NaN y = False"
| "fl_less x NaN = False"
| "fl_less x NInf = False"
| "fl_less NInf y = True"
| "fl_less PInf y = False"
| "fl_less x PInf = True"

definition beats :: "fl \<Rightarrow> fl \<Rightarrow> bool" where
  "beats x best = (best \<noteq> NaN \<and> (x = NaN \<or> fl_less best x))"

fun argmax_from :: "nat \<Rightarrow> fl \<Rightarrow> nat \<Rightarrow> fl list \<Rightarrow> nat" where
  "argmax_from bi bv k [] = bi"
| "argmax_from bi bv k (x # xs) =
     (if beats x bv then argmax_from k x (Suc k) xs else argmax_from bi bv (Suc k) xs)"

definition argmax :: "fl list \<Rightarrow> nat" where
  "argmax col = (case col of [] \<Rightarrow> 0 | x # xs \<Rightarrow> argmax_from 0 x 1 xs)"

definition pixel_columns :: "'a list list list \<Rightarrow> 'a list list list" where
  "pixel_columns img = map transpose (transpose img)"

definition argmax_dim1 :: "tensor4 \<Rightarrow> error + labels" where
  "argmax_dim1 output =
     (if [] \<in> set output then Inl RuntimeError
      else Inr (map (\<lambda>img. map (map (\<lambda>col. int (argmax col))) (pixel_columns img)) output))"

text \<open>
  The pixel measurements of \<open>train\<close> and \<open>test\<close>: for each class \<open>i\<close>, the pixels
  where prediction and target both are \<open>i\<close> and those where one of them is, compared
  as bytes (\<open>.byte()\<close>, \<open>dtype = torch.uint8\<close>) after \<open>target.view_as(pred)\<close>,
  which raises unless both have the same number of elements.
\<close>

definition byte :: "int \<Rightarrow> int" where
  "byte x = x mod 256"

definition correct_pixels :: "labels \<Rightarrow> labels \<Rightarrow> nat \<Rightarrow> nat" where
  "correct_pixels pred target i =
     length (filter (\<lambda>(p, t). byte p = byte (int i) \<and> byte t = byte (int i))
               (zip (flat3 pred) (flat3 target)))"

definition jaccard_or_pixels :: "labels \<Rightarrow> labels \<Rightarrow> nat \<Rightarrow> nat" where
  "jaccard_or_pixels pred target i =
     length (filter (\<lambda>(p, t). byte p = byte (int i) \<or> byte t = byte (int i))
               (zip (flat3 pred) (flat3 target)))"

fun pixel_loop :: "labels \<Rightarrow> labels \<Rightarrow> nat list \<Rightarrow> int list \<times> int list \<Rightarrow> error + int list \<times> int list" where
  "pixel_loop pred target [] (class_correct, class_jacard_or) = Inr (class_correct, class_jacard_or)"
| "pixel_loop pred target (i # rest) (class_correct, class_jacard_or) =
     (if length (flat3 target) \<noteq> length (flat3 pred) then Inl RuntimeError
      else if \<not> (i < length class_correct \<and> i < length class_jacard_or) then Inl IndexError
      else pixel_loop pred target rest
             (class_correct[i := class_correct ! i + int (correct_pixels pred target i)],
              class_jacard_or[i := class_jacard_or ! i + int (jaccard_or_pixels pred target i)]))"

text \<open>
  The prior of \<open>test\<close> (lines 111-116): every class plane of the distribution is
  divided by its mean, the planes are normalised to sum to 1 at every pixel, and the
  result is subtracted from 1. The distribution has the shape of one image's output.
\<close>

definition sum_dim0 :: "tensor3 \<Rightarrow> fl list list" where
  "sum_dim0 img = map (map fl_sum) (pixel_columns img)"

definition div_dim0 :: "tensor3 \<Rightarrow> fl list list \<Rightarrow> tensor3" where
  "div_dim0 img normalization = map (\<lambda>plane. map2 (map2 fl_div) plane normalization) img"

fun prior_rescale :: "nat list \<Rightarrow> tensor3 \<Rightarrow> error + tensor3" where
  "prior_rescale [] prior = Inr prior"
| "prior_rescale (i # rest) prior =
     (if \<not> i < length prior then Inl IndexError
      else prior_rescale rest
             (prior[i := map (map (\<lambda>x. fl_div x (fl_mean (concat (prior ! i))))) (prior ! i)]))"

definition unbiased_prior :: "nat \<Rightarrow> tensor3 \<Rightarrow> error + tensor3" where
  "unbiased_prior n distribution =
     bind_err (prior_rescale [0..<n] distribution) (\<lambda>prior.
       Inr (map (map (map (\<lambda>x. fl_sub (Fin 1) x))) (div_dim0 prior (sum_dim0 prior))))"

text \<open>
  The prior correction of \<open>test\<close> (lines 123-129). The output is exponentiated; then,
  for every image \<open>i\<close> of the batch: the prior is subtracted from image \<open>i\<close> and the
  sigmoid is taken (\<open>squash\<close>, lines 125-126), the image is divided by its sum over the
  classes (\<open>renormalize\<close>, lines 127-128), and \<^verbatim>\<open>output = np.log(output)\<close>, which
  stands inside the loop, takes the logarithm of the whole batch. Nothing looks at the
  divisor. The subtraction broadcasts the prior to the image's shape (\<open>broadcast3\<close>):
  along every axis the prior has the image's length or length 1; any other prior makes
  \<^verbatim>\<open>output[i] = output[i] - prior\<close> raise.
\<close>

definition broadcast_to :: "'a list \<Rightarrow> nat \<Rightarrow> 'a list option" where
  "broadcast_to xs n =
     (if length xs = n then Some xs
      else if length xs = 1 then Some (replicate n (hd xs))
      else None)"

definition broadcast3 :: "tensor3 \<Rightarrow> nat list list \<Rightarrow> tensor3 option" where
  "broadcast3 prior sh =
     (case broadcast_to prior (length sh) of
        None \<Rightarrow> None
      | Some planes \<Rightarrow>
          those (map2 (\<lambda>plane lens.
                   case broadcast_to plane (length lens) of
                     None \<Rightarrow> None
                   | Some rows \<Rightarrow> those (map2 broadcast_to rows lens))
                 planes sh))"

definition squash :: "tensor3 \<Rightarrow> tensor3 \<Rightarrow> tensor3" where
  "squash prior img = map (map (map fl_sigmoid)) (map2 (map2 (map2 fl_sub)) img prior)"

definition renormalize :: "tensor3 \<Rightarrow> tensor3" where
  "renormalize img = (let normalization = sum_dim0 img in div_dim0 img normalization)"

fun prior_loop :: "tensor3 \<Rightarrow> nat list \<Rightarrow> tensor4 \<Rightarrow> error + tensor4" where
  "prior_loop prior [] output = Inr output"
| "prior_loop prior (i # rest) output =
     (if \<not> i < length output then Inl IndexError
      else case broadcast3 prior (shape3 (output ! i)) of
             None \<Rightarrow> Inl RuntimeError
           | Some pr \<Rightarrow>
               prior_loop prior rest
                 (map (map (map (map fl_log))) (output[i := renormalize (squash pr (output ! i))])))"

definition prior_correction :: "tensor3 \<Rightarrow> tensor4 \<Rightarrow> error + tensor4" where
  "prior_correction prior output =
     prior_loop prior [0..<length output] (map (map (map (map fl_exp))) output)"

section \<open>The model, its statistics and the log\<close>

text \<open>
  \<open>model.train_stats\<close> and \<open>model.test_stats\<close>; \<open>jaccard_accuracy\<close> is absent
  (\<open>None\<close>) in a model saved before the trainer recorded it. The state of a run is the
  model (parameters, mode, statistics) and the trace of what the run did to the world
  outside: calls of the network, optimizer steps, printed reports, checkpoints.
\<close>

record stats =
  loss :: "fl list"
  accuracy :: "fl list"
  jaccard_accuracy :: "fl list option"
  per_class_loss :: "fl list list"
  per_class_accuracy :: "int list list"
  confusion :: "int list list"

datatype ('d, 'r) event =
    Forward 'd
  | OptimizerStep
  | PrintLossVec "fl list"
  | PrintReport string fl int int fl fl
  | PrintTable "(nat \<times> int \<times> fl list) list"
  | PrintSaving
  | Save
  | Visualize labels labels 'r

record ('p, 'd, 'r) state =
  params :: 'p
  training :: bool
  train_stats :: stats
  test_stats :: stats
  trace :: "('d, 'r) event list"

text \<open>The collaborators the trainer calls and the trainer's own fields.\<close>

record ('p, 'd, 'r) env =
  forward :: "'p \<Rightarrow> bool \<Rightarrow> 'd \<Rightarrow> tensor4"
  loss_none :: "tensor4 \<Rightarrow> labels \<Rightarrow> tensor3"
  loss_mean :: "tensor4 \<Rightarrow> labels \<Rightarrow> fl"
  backward_step :: "'p \<Rightarrow> 'd \<Rightarrow> labels \<Rightarrow> 'p"
  crf_batch_postprocessing :: "'r \<Rightarrow> tensor4 \<Rightarrow> nat \<Rightarrow> tensor4"
  get_distribution :: tensor3

record trainer =
  num_classes :: nat
  log_spacing :: int
  save_spacing :: int
  per_class :: bool
  train_batch_size :: int
  test_batch_size :: int

definition py_mod :: "int \<Rightarrow> int \<Rightarrow> error + int" where
  "py_mod a b = (if b = 0 then Inl ZeroDivisionError else Inr (a mod b))"

definition float_div_int :: "fl \<Rightarrow> int \<Rightarrow> error + fl" where
  "float_div_int x d = (if d = 0 then Inl ZeroDivisionError else Inr (fl_div x (Fin (real_of_int d))))"

definition int_div_int :: "int \<Rightarrow> int \<Rightarrow> error + fl" where
  "int_div_int x y = (if y = 0 then Inl ZeroDivisionError else Inr (Fin (real_of_int x / real_of_int y)))"

text \<open>\<^verbatim>\<open>list(map(lambda x, y: x/y, class_correct_pixels, class_jacard_or))\<close>\<close>

fun jaccard_terms :: "int list \<Rightarrow> int list \<Rightarrow> error + fl list" where
  "jaccard_terms (x # xs) (y # ys) =
     bind_err (int_div_int x y) (\<lambda>q. bind_err (jaccard_terms xs ys) (\<lambda>qs. Inr (q # qs)))"
| "jaccard_terms xs ys = Inr []"

fun table_rows :: "nat \<Rightarrow> nat \<Rightarrow> int list list \<Rightarrow> error + (nat \<times> int \<times> fl list) list" where
  "table_rows n class_type [] = Inr []"
| "table_rows n class_type (row # rows) =
     (if length row < n then Inl IndexError
      else let total = sum_list (take n row);
               line = (class_type, total,
                       if total = 0 then []
                       else map (\<lambda>a. Fin (100 * real_of_int a / real_of_int total)) (take n row))
           in bind_err (table_rows n (Suc class_type) rows) (\<lambda>rest. Inr (line # rest)))"

definition append_jaccard :: "stats \<Rightarrow> fl \<Rightarrow> stats" where
  "append_jaccard s j =
     (case jaccard_accuracy s of
        None \<Rightarrow> s
      | Some js \<Rightarrow> s\<lparr>jaccard_accuracy := Some (js @ [j])\<rparr>)"

definition print_log ::
  "('p, 'd, 'r) state \<Rightarrow> int list \<Rightarrow> int list \<Rightarrow> fl \<Rightarrow> int \<Rightarrow> int \<Rightarrow> string \<Rightarrow> bool
     \<Rightarrow> int list list \<Rightarrow> bool \<Rightarrow> error + ('p, 'd, 'r) state" where
  "print_log st class_correct_pixels class_jacard_or lss num_samples batch_size name
       use_acc_dict acc_dict tst =
     bind_err (float_div_int lss (num_samples * batch_size)) (\<lambda>lss'.
     let total_samples = num_samples * batch_size * 1280 * 720 in
     bind_err (float_div_int (Fin (100 * real_of_int (sum_list class_correct_pixels))) total_samples)
       (\<lambda>acc_pct.
     bind_err (jaccard_terms class_correct_pixels class_jacard_or) (\<lambda>terms.
     let jaccard = fl_mean terms;
         st1 = st\<lparr>trace := trace st
                 @ [PrintReport name lss' (sum_list class_correct_pixels) total_samples acc_pct jaccard]\<rparr>;
         st2 = (if tst
                then st1\<lparr>test_stats := append_jaccard
                        ((test_stats st1)\<lparr>loss := loss (test_stats st1) @ [lss'],
                                            accuracy := accuracy (test_stats st1) @ [acc_pct]\<rparr>)
                        jaccard\<rparr>
                else st1\<lparr>train_stats := (train_stats st1)
                                            \<lparr>loss := loss (train_stats st1) @ [lss'],
                                             accuracy := accuracy (train_stats st1) @ [acc_pct]\<rparr>,
                         test_stats := append_jaccard (test_stats st1) jaccard\<rparr>)
     in if use_acc_dict
        then bind_err (table_rows (if length acc_dict = 3 then 3 else 2) 0 acc_dict) (\<lambda>rows.
               Inr (st2\<lparr>trace := trace st2 @ [PrintTable rows]\<rparr>))
        else Inr st2)))"

fun diagonal_from :: "nat \<Rightarrow> 'a list list \<Rightarrow> 'a list" where
  "diagonal_from k [] = []"
| "diagonal_from k (row # rows) =
     (if k < length row then row ! k # diagonal_from (Suc k) rows else [])"

definition diagonal :: "'a list list \<Rightarrow> 'a list" where
  "diagonal m = diagonal_from 0 m"

section \<open>The training loop\<close>

text \<open>
  One pass of the loop body of \<open>SegmentationTrainer.train\<close> (lines 52-99) for the
  batch \<open>(raw, data, target)\<close> at \<open>batch_idx\<close>. The loop variables are the state,
  \<open>class_correct\<close>, \<open>class_jacard_or\<close> and \<open>sum_loss\<close>. The first line is the
  \<^verbatim>\<open>continue\<close> of a batch before \<open>start_index\<close>.
\<close>

type_synonym ('p, 'd, 'r) train_vars = "('p, 'd, 'r) state \<times> int list \<times> int list \<times> fl"

definition train_batch ::
  "('p, 'd, 'r) env \<Rightarrow> trainer \<Rightarrow> int \<Rightarrow> ('p, 'd, 'r) train_vars
     \<Rightarrow> nat \<times> 'r \<times> 'd \<times> labels \<Rightarrow> error + ('p, 'd, 'r) train_vars" where
  "train_batch e tr start_index vars b =
     (case (vars, b) of ((st, class_correct, class_jacard_or, sum_loss), (batch_idx, raw, data, target)) \<Rightarrow>
      if int batch_idx < start_index then Inr (st, class_correct, class_jacard_or, sum_loss)
      else
        let loss_vec0 = replicate (num_classes tr) (Fin 0);
            output = forward e (params st) (training st) data;
            st1 = st\<lparr>trace := trace st @ [Forward data]\<rparr>;
            lss = loss_none e output target
        in
        bind_err (argmax_dim1 output) (\<lambda>pred.
        bind_err (pixel_loop pred target [0..<num_classes tr] (class_correct, class_jacard_or))
          (\<lambda>(class_correct', class_jacard_or').
        bind_err (get_per_class_loss lss target loss_vec0) (\<lambda>loss_vec.
        let st2 = st1\<lparr>train_stats := (train_stats st1)
                         \<lparr>per_class_loss := per_class_loss (train_stats st1) @ [loss_vec]\<rparr>\<rparr>;
            sum_loss' = fl_add sum_loss (fl_sum loss_vec);
            st3 = st2\<lparr>params := backward_step e (params st2) data target,
                      trace := trace st2 @ [OptimizerStep]\<rparr>
        in
        bind_err (get_per_class_accuracy pred target (confusion (train_stats st3))) (\<lambda>conf.
        let st4 = st3\<lparr>train_stats := (train_stats st3)\<lparr>confusion := conf\<rparr>\<rparr> in
        bind_err (py_mod (int batch_idx) (log_spacing tr)) (\<lambda>m.
        bind_err
          (if m = 0
           then print_log
                  (st4\<lparr>train_stats := (train_stats st4)
                          \<lparr>per_class_accuracy := per_class_accuracy (train_stats st4) @ [diagonal conf]\<rparr>,
                       trace := trace st4 @ [PrintLossVec loss_vec]\<rparr>)
                  class_correct' class_jacard_or' sum_loss' (int batch_idx + 1)
                  (train_batch_size tr) ''Training Set'' (per_class tr) conf False
           else Inr st4) (\<lambda>st5.
        bind_err (py_mod (int batch_idx) (save_spacing tr)) (\<lambda>m'.
        Inr (if m' = 0 then st5\<lparr>trace := trace st5 @ [PrintSaving, Save]\<rparr> else st5,
             class_correct', class_jacard_or', sum_loss')))))))))"

fun train_loop ::
  "('p, 'd, 'r) env \<Rightarrow> trainer \<Rightarrow> int \<Rightarrow> (nat \<times> 'r \<times> 'd \<times> labels) list
     \<Rightarrow> ('p, 'd, 'r) train_vars \<Rightarrow> error + ('p, 'd, 'r) train_vars" where
  "train_loop e tr start_index [] vars = Inr vars"
| "train_loop e tr start_index (b # bs) vars =
     bind_err (train_batch e tr start_index vars b) (train_loop e tr start_index bs)"

text \<open>\<open>SegmentationTrainer.train(epoch, start_index)\<close> over the batches of the train
  loader, numbered from 0 by \<open>enumerate\<close>.\<close>

definition train ::
  "('p, 'd, 'r) env \<Rightarrow> trainer \<Rightarrow> ('r \<times> 'd \<times> labels) list \<Rightarrow> nat \<Rightarrow> int
     \<Rightarrow> ('p, 'd, 'r) state \<Rightarrow> error + ('p, 'd, 'r) state" where
  "train e tr train_loader epoch start_index st =
     bind_err
       (train_loop e tr start_index (enumerate 0 train_loader)
          (st\<lparr>training := True\<rparr>,
           replicate (num_classes tr) 0, replicate (num_classes tr) 0, Fin 0))
       (\<lambda>(st', class_correct, class_jacard_or, sum_loss). Inr st')"

section \<open>The evaluation loop\<close>

text \<open>
  One pass of the loop body of \<open>SegmentationTrainer.test\<close> (lines 118-164). The loop
  variables are the state, \<open>class_correct\<close>, \<open>class_jacard_or\<close>, \<open>test_loss\<close> and
  \<open>batches_done\<close>.
\<close>

type_synonym ('p, 'd, 'r) test_vars = "('p, 'd, 'r) state \<times> int list \<times> int list \<times> fl \<times> int"

definition test_batch ::
  "('p, 'd, 'r) env \<Rightarrow> trainer \<Rightarrow> tensor3 \<Rightarrow> string \<Rightarrow> bool \<Rightarrow> bool \<Rightarrow> bool
     \<Rightarrow> ('p, 'd, 'r) test_vars \<Rightarrow> 'r \<times> 'd \<times> labels \<Rightarrow> error + ('p, 'd, 'r) test_vars" where
  "test_batch e tr prior dataset_name use_crf visualize use_prior vars b =
     (case (vars, b) of
        ((st, class_correct, class_jacard_or, test_loss, batches_done), (raw_samples, data, target)) \<Rightarrow>
        let output0 = forward e (params st) (training st) data;
            st1 = st\<lparr>trace := trace st @ [Forward data]\<rparr>
        in
        bind_err (if use_prior then prior_correction prior output0 else Inr output0) (\<lambda>output1.
        let output = (if use_crf
                      then crf_batch_postprocessing e raw_samples output1 (num_classes tr)
                      else output1);
            test_loss' = fl_add test_loss (loss_mean e output target)
        in
        bind_err (argmax_dim1 output) (\<lambda>pred.
        bind_err (pixel_loop pred target [0..<num_classes tr] (class_correct, class_jacard_or))
          (\<lambda>(class_correct', class_jacard_or').
        bind_err (get_per_class_accuracy pred target (confusion (test_stats st1))) (\<lambda>conf.
        let st2 = st1\<lparr>test_stats := (test_stats st1)\<lparr>confusion := conf\<rparr>\<rparr>;
            batches_done' = batches_done + 1
        in
        bind_err (py_mod batches_done' (log_spacing tr)) (\<lambda>m.
        if m = 0
        then bind_err
               (print_log
                  (st2\<lparr>test_stats := (test_stats st2)
                          \<lparr>per_class_accuracy := per_class_accuracy (test_stats st2) @ [diagonal conf]\<rparr>\<rparr>)
                  class_correct' class_jacard_or' test_loss' batches_done'
                  (test_batch_size tr) dataset_name True conf True)
               (\<lambda>st3.
                  Inr (st3\<lparr>trace := trace st3 @ [PrintSaving, Save]
                                 @ (if visualize then [Visualize pred target raw_samples] else [])\<rparr>,
                       class_correct', class_jacard_or', test_loss', batches_done'))
        else Inr (st2, class_correct', class_jacard_or', test_loss', batches_done')))))))"

fun test_loop ::
  "('p, 'd, 'r) env \<Rightarrow> trainer \<Rightarrow> tensor3 \<Rightarrow> string \<Rightarrow> bool \<Rightarrow> bool \<Rightarrow> bool
     \<Rightarrow> ('r \<times> 'd \<times> labels) list \<Rightarrow> ('p, 'd, 'r) test_vars \<Rightarrow> error + ('p, 'd, 'r) test_vars" where
  "test_loop e tr prior dataset_name use_crf visualize use_prior [] vars = Inr vars"
| "test_loop e tr prior dataset_name use_crf visualize use_prior (b # bs) vars =
     bind_err (test_batch e tr prior dataset_name use_crf visualize use_prior vars b)
       (test_loop e tr prior dataset_name use_crf visualize use_prior bs)"

text \<open>
  \<open>SegmentationTrainer.test(dataset_name, use_crf, iters_per_log, visualize, use_prior)\<close>
  over the batches of the test loader. Nothing follows the loop.
\<close>

definition test ::
  "('p, 'd, 'r) env \<Rightarrow> trainer \<Rightarrow> ('r \<times> 'd \<times> labels) list \<Rightarrow> string \<Rightarrow> bool \<Rightarrow> int \<Rightarrow> bool \<Rightarrow> bool
     \<Rightarrow> ('p, 'd, 'r) state \<Rightarrow> error + ('p, 'd, 'r) state" where
  "test e tr test_loader dataset_name use_crf iters_per_log visualize use_prior st =
     bind_err (unbiased_prior (num_classes tr) (get_distribution e)) (\<lambda>prior.
     bind_err
       (test_loop e tr prior dataset_name use_crf visualize use_prior test_loader
          (st\<lparr>training := False\<rparr>,
           replicate (num_classes tr) 0, replicate (num_classes tr) 0, Fin 0, 0))
       (\<lambda>(st', class_correct, class_jacard_or, test_loss, batches_done). Inr st'))"

section \<open>A small network for running the loops\<close>

text \<open>
  Modelled from the spec: the model class that creates \<open>train_stats\<close> and
  \<open>test_stats\<close> is not among the sources; the specification has the logs empty and the
  confusion matrix "zero-initialized per run". \<open>fresh_stats\<close> and \<open>fresh_state\<close> are
  such a model, used as the input of the example runs only.
\<close>

definition fresh_stats :: "nat \<Rightarrow> stats" where
  "fresh_stats n =
     \<lparr>loss = [], accuracy = [], jaccard_accuracy = Some [], per_class_loss = [],
      per_class_accuracy = [], confusion = replicate n (replicate n 0)\<rparr>"

definition fresh_state :: "nat \<Rightarrow> (unit, tensor4, unit) state" where
  "fresh_state n =
     \<lparr>params = (), training = False, train_stats = fresh_stats n, test_stats = fresh_stats n,
      trace = []\<rparr>"

text \<open>
  Collaborators that are as simple as can be: the network returns its input as the class
  scores, every loss is 1, the optimizer and the CRF change nothing.
\<close>

definition identity_net :: "(unit, tensor4, unit) env" where
  "identity_net =
     \<lparr>forward = (\<lambda>p m d. d),
      loss_none = (\<lambda>out tg. map (map (map (\<lambda>t. Fin 1))) tg),
      loss_mean = (\<lambda>out tg. Fin 1),
      backward_step = (\<lambda>p d tg. p),
      crf_batch_postprocessing = (\<lambda>r out n. out),
      get_distribution = [[[Fin (1 / 2)]], [[Fin (1 / 2)]]]\<rparr>"

text \<open>A batch of one image of 1x2 pixels, predicted and labelled \<open>[0, 1]\<close>, and a
  trainer for two classes that logs and saves every second batch.\<close>

definition two_pixel_batch :: "unit \<times> tensor4 \<times> labels" where
  "two_pixel_batch = ((), [[[[Fin 1, Fin 0]], [[Fin 0, Fin 1]]]], [[[0, 1]]])"

definition small_trainer :: trainer where
  "small_trainer =
     \<lparr>num_classes = 2, log_spacing = 2, save_spacing = 2, per_class = True,
      train_batch_size = 1, test_batch_size = 1\<rparr>"

section \<open>What the claims speak of\<close>

text \<open>
  The element-wise losses of the pixels whose target is class \<open>c\<close>, in the words of the
  specification ("the element-wise loss over exactly the pixels where target == c"); the
  code's selection is \<open>masked_select\<close> above.
\<close>

definition losses_of_class :: "tensor3 \<Rightarrow> labels \<Rightarrow> nat \<Rightarrow> fl list" where
  "losses_of_class lss target c =
     map fst (filter (\<lambda>(l, t). t = int c) (zip (flat3 lss) (flat3 target)))"

definition class_entry :: "tensor3 \<Rightarrow> labels \<Rightarrow> nat \<Rightarrow> fl" where
  "class_entry lss target c =
     (if int c \<in> set (flat3 target) then fl_mean (losses_of_class lss target c) else Fin 0)"

text \<open>
  The trace of a run with the payloads erased, and what one batch of each loop leaves in
  it: a batch of the evaluation loop calls the network and, when \<open>batches_done\<close> (the
  number \<open>k\<close> of the batch, from 1) is a multiple of \<open>log_spacing\<close>, prints the report
  and the table, saves the model and shows the images if asked to; a batch of the training
  loop calls the network, steps the optimizer, logs when \<open>batch_idx\<close> is a multiple of
  \<open>log_spacing\<close> and saves when it is a multiple of \<open>save_spacing\<close>.
\<close>

datatype kind = KForward | KOptimizerStep | KLossVec | KReport | KTable | KSaving | KSave | KVisualize

fun kind_of :: "('d, 'r) event \<Rightarrow> kind" where
  "kind_of (Forward d) = KForward"
| "kind_of OptimizerStep = KOptimizerStep"
| "kind_of (PrintLossVec v) = KLossVec"
| "kind_of (PrintReport name l c t a j) = KReport"
| "kind_of (PrintTable rows) = KTable"
| "kind_of PrintSaving = KSaving"
| "kind_of Save = KSave"
| "kind_of (Visualize p t r) = KVisualize"

definition test_batch_kinds :: "trainer \<Rightarrow> bool \<Rightarrow> int \<Rightarrow> kind list" where
  "test_batch_kinds tr visualize k =
     KForward # (if k mod log_spacing tr = 0
                 then [KReport, KTable, KSaving, KSave] @ (if visualize then [KVisualize] else [])
                 else [])"

definition train_batch_kinds :: "trainer \<Rightarrow> nat \<Rightarrow> kind list" where
  "train_batch_kinds tr batch_idx =
     [KForward, KOptimizerStep]
     @ (if int batch_idx mod log_spacing tr = 0
        then [KLossVec, KReport] @ (if per_class tr then [KTable] else [])
        else [])
     @ (if int batch_idx mod save_spacing tr = 0 then [KSaving, KSave] else [])"

fun forwarded :: "('d, 'r) event list \<Rightarrow> 'd list" where
  "forwarded [] = []"
| "forwarded (Forward d # evs) = d # forwarded evs"
| "forwarded (ev # evs) = forwarded evs"

text \<open>
  A tensor of shape \<open>C x H x W\<close>, and the values a sigmoid can take: a number that is
  not negative, or NaN.
\<close>

definition rectangular :: "nat \<Rightarrow> nat \<Rightarrow> nat \<Rightarrow> 'a list list list \<Rightarrow> bool" where
  "rectangular C H W t =
     (length t = C \<and> list_all (\<lambda>plane. length plane = H \<and> list_all (\<lambda>row. length row = W) plane) t)"

fun nonneg_or_nan :: "fl \<Rightarrow> bool" where
  "nonneg_or_nan (Fin a) = (0 \<le> a)"
| "nonneg_or_nan NaN = True"
| "nonneg_or_nan x = False"

text \<open>
  A confusion matrix of \<open>n x n\<close> cells; a tensor whose entries are all finite numbers
  (\<open>fl_val\<close> reads the number); and the penalty of a perfectly uniform distribution,
  the same \<open>k\<close> for every class at every pixel.
\<close>

definition square :: "nat \<Rightarrow> 'a list list \<Rightarrow> bool" where
  "square n m = (length m = n \<and> list_all (\<lambda>row. length row = n) m)"

fun is_fin :: "fl \<Rightarrow> bool" where
  "is_fin (Fin a) = True"
| "is_fin x = False"

fun fl_val :: "fl \<Rightarrow> real" where
  "fl_val (Fin a) = a"
| "fl_val x = 0"

definition all_finite :: "tensor3 \<Rightarrow> bool" where
  "all_finite t = list_all (list_all (list_all is_fin)) t"

definition uniform_penalty :: "nat \<Rightarrow> nat \<Rightarrow> nat \<Rightarrow> real \<Rightarrow> tensor3" where
  "uniform_penalty C H W k = replicate C (replicate H (replicate W (Fin k)))"

text \<open>
  What the batches of a list add, one after the other, with nothing skipped and nothing
  logged: each batch is run through the network (in the given mode) with the parameters
  reached so far, its pixels are added to the confusion matrix and to the per-class
  counts of correct and union pixels, its per-class loss vector is appended and its summed
  loss added, and the optimizer steps. The totals are the parameters, the confusion
  matrix, \<open>class_correct\<close>, \<open>class_jacard_or\<close>, \<open>sum_loss\<close> and the list of
  per-class loss vectors.
\<close>

type_synonym 'p totals = "'p \<times> int list list \<times> int list \<times> int list \<times> fl \<times> fl list list"

definition accumulate_batch ::
  "('p, 'd, 'r) env \<Rightarrow> nat \<Rightarrow> bool \<Rightarrow> 'p totals \<Rightarrow> 'r \<times> 'd \<times> labels \<Rightarrow> error + 'p totals" where
  "accumulate_batch e n mode tot b =
     (case (tot, b) of
        ((p, conf, class_correct, class_jacard_or, sum_loss, pcl), (raw, data, target)) \<Rightarrow>
        let output = forward e p mode data in
        bind_err (argmax_dim1 output) (\<lambda>pred.
        bind_err (pixel_loop pred target [0..<n] (class_correct, class_jacard_or))
          (\<lambda>(class_correct', class_jacard_or').
        bind_err (get_per_class_loss (loss_none e output target) target (replicate n (Fin 0)))
          (\<lambda>loss_vec.
        bind_err (get_per_class_accuracy pred target conf) (\<lambda>conf'.
        Inr (backward_step e p data target, conf', class_correct', class_jacard_or',
             fl_add sum_loss (fl_sum loss_vec), pcl @ [loss_vec]))))))"

fun accumulate ::
  "('p, 'd, 'r) env \<Rightarrow> nat \<Rightarrow> bool \<Rightarrow> ('r \<times> 'd \<times> labels) list \<Rightarrow> 'p totals \<Rightarrow> error + 'p totals" where
  "accumulate e n mode [] tot = Inr tot"
| "accumulate e n mode (b # bs) tot =
     bind_err (accumulate_batch e n mode tot b) (accumulate e n mode bs)"

section \<open>Basic facts\<close>


lemma bind_err_Inr [simp]: "bind_err (Inr x) f = f x"
  by (simp add: bind_err_def)

lemma bind_err_Inl [simp]: "bind_err (Inl e) f = Inl e"
  by (simp add: bind_err_def)

lemma bind_err_eq_Inr: "bind_err m f = Inr y \<longleftrightarrow> (\<exists>x. m = Inr x \<and> f x = Inr y)"
  by (cases m) simp_all

lemma flat3_map3: "flat3 (map (map (map f)) t) = map f (flat3 t)"
  by (simp add: flat3_def map_concat comp_def)

lemma shape3_map3 [simp]: "shape3 (map (map (map f)) t) = shape3 t"
  by (simp add: shape3_def comp_def)

lemma shape3_flat_length: "shape3 a = shape3 b \<Longrightarrow> length (flat3 a) = length (flat3 b)"
proof -
  assume h: "shape3 a = shape3 b"
  have "length (flat3 t) = sum_list (map sum_list (shape3 t))" for t :: "'c list list list"
    by (simp add: flat3_def shape3_def length_concat comp_def)
  then show ?thesis using h 
    by (metis (no_types) \<open>\<And>t. length (flat3 t) = sum_list (map sum_list (shape3 t))\<close>)
qed

lemma filter_snd_zip_map:
  "map fst (filter snd (zip xs (map f ys))) = map fst (filter (\<lambda>(l, t). f t) (zip xs ys))"
  by (induction xs ys rule: list_induct2') auto

lemma masked_select_eq_mask:
  "shape3 lss = shape3 target \<Longrightarrow>
     masked_select lss (eq_mask target (int c)) = Inr (losses_of_class lss target c)"
  by (simp add: masked_select_def eq_mask_def flat3_map3 filter_snd_zip_map losses_of_class_def)

lemma length_filter_zip_snd:
  "length xs = length ys \<Longrightarrow> length (filter (\<lambda>(l, t). P t) (zip xs ys)) = length (filter P ys)"
  by (induction xs ys rule: list_induct2) auto

lemma mask_sum_eq_mask:
  "shape3 lss = shape3 target \<Longrightarrow>
     mask_sum (eq_mask target (int c)) = length (losses_of_class lss target c)"
  by (simp add: mask_sum_def eq_mask_def flat3_map3 losses_of_class_def filter_map comp_def
        length_filter_zip_snd [OF shape3_flat_length])

lemma losses_of_class_empty:
  "shape3 lss = shape3 target \<Longrightarrow>
     losses_of_class lss target c = [] \<longleftrightarrow> int c \<notin> set (flat3 target)"
proof -
  assume h: "shape3 lss = shape3 target"
  have "length (losses_of_class lss target c) = length (filter (\<lambda>t. t = int c) (flat3 target))"
    by (simp add: losses_of_class_def length_filter_zip_snd [OF shape3_flat_length [OF h]])
  then show ?thesis
    by (metis (mono_tags, lifting) filter_empty_conv length_0_conv)
qed

lemma per_class_loss_loop_fold:
  "shape3 lss = shape3 target \<Longrightarrow>
     per_class_loss_loop lss target cs loss_vec =
       Inr (fold (\<lambda>i v. v[i := class_entry lss target i]) cs loss_vec)"
proof (induction cs arbitrary: loss_vec)
  case Nil
  then show ?case by simp
next
  case (Cons i cs)
  have e1: "losses_of_class lss target i \<noteq> [] \<Longrightarrow>
            fl_div (fl_sum (losses_of_class lss target i)) (Fin (real (length (losses_of_class lss target i))))
              = class_entry lss target i"
    using losses_of_class_empty [OF Cons.prems, of i]
    by (simp add: class_entry_def fl_mean_def)
  have e2: "losses_of_class lss target i = [] \<Longrightarrow> Fin 0 = class_entry lss target i"
    using losses_of_class_empty [OF Cons.prems, of i]
    by (simp add: class_entry_def)
  show ?case
  proof (cases "losses_of_class lss target i = []")
    case True
    then show ?thesis
      using Cons.prems e2 [OF True]
      by (simp add: masked_select_eq_mask mask_sum_eq_mask Cons.IH)
  next
    case False
    then show ?thesis
      using Cons.prems e1 [OF False]
      by (simp add: masked_select_eq_mask mask_sum_eq_mask Cons.IH)
  qed
qed

lemma fold_update_nth:
  "distinct cs \<Longrightarrow> c \<in> set cs \<Longrightarrow> c < length v \<Longrightarrow>
     fold (\<lambda>i v. v[i := f i]) cs v ! c = f c"
proof (induction cs arbitrary: v)
  case Nil then show ?case by simp
next
  case (Cons i cs)
  have keep: "c \<notin> set cs \<Longrightarrow> c < length w \<Longrightarrow> fold (\<lambda>i v. v[i := f i]) cs w ! c = w ! c" for w
    by (induction cs arbitrary: w) auto
  show ?case
  proof (cases "c \<in> set cs")
    case True
    then show ?thesis using Cons by simp
  next
    case False
    then have "c = i" using Cons.prems by simp
    then show ?thesis using keep [OF False] Cons.prems by simp
  qed
qed

lemma length_fold_update [simp]: "length (fold (\<lambda>i v. v[i := f i]) cs v) = length v"
  by (induction cs arbitrary: v) auto

text \<open>
  C6. For loss and target of one shape and every class \<open>c\<close> of the loss vector,
  \<open>get_per_class_loss\<close> raises nothing; it writes 0 into entry \<open>c\<close> when no target
  pixel has class \<open>c\<close>, and otherwise the mean of the element-wise loss over the pixels
  whose target is \<open>c\<close>.
\<close>

theorem get_per_class_loss_entry:
  assumes "shape3 lss = shape3 target" and "c < length loss_vec"
  shows "\<exists>v. get_per_class_loss lss target loss_vec = Inr v \<and> length v = length loss_vec \<and>
           v ! c = (if int c \<in> set (flat3 target)
                    then fl_mean (losses_of_class lss target c) else Fin 0)"
  using assms
  by (simp add: get_per_class_loss_def per_class_loss_loop_fold fold_update_nth class_entry_def)

lemma fl_sum_Fin: "fl_sum (map Fin rs) = Fin (sum_list rs)"
  by (induction rs) auto

lemma fl_mean_Fin: "rs \<noteq> [] \<Longrightarrow> fl_mean (map Fin rs) = Fin (sum_list rs / real (length rs))"
  by (simp add: fl_mean_def fl_sum_Fin)

theorem get_per_class_loss_entry_witness:
  "shape3 [[[Fin 2, Fin 4], [Fin 6, Fin 8]]] = shape3 [[[0, 1], [1, 1 :: int]]] \<and>
   (2::nat) < length [Fin 9, Fin 9, Fin 9] \<and>
   (\<exists>v. get_per_class_loss [[[Fin 2, Fin 4], [Fin 6, Fin 8]]] [[[0, 1], [1, 1]]] [Fin 9, Fin 9, Fin 9] = Inr v
        \<and> length v = 3 \<and> v ! 2 = Fin 0 \<and> v ! 1 = Fin 6)"
proof -
  have s: "shape3 [[[Fin 2, Fin 4], [Fin 6, Fin 8]]] = shape3 [[[0, 1], [1, 1 :: int]]]"
    by (simp add: shape3_def)
  obtain v where v: "get_per_class_loss [[[Fin 2, Fin 4], [Fin 6, Fin 8]]] [[[0, 1], [1, 1]]] [Fin 9, Fin 9, Fin 9] = Inr v"
      "length v = 3" "v ! 2 = Fin 0"
    using get_per_class_loss_entry [OF s, of 2 "[Fin 9, Fin 9, Fin 9]"]
    by (auto simp: flat3_def)
  obtain w where w: "get_per_class_loss [[[Fin 2, Fin 4], [Fin 6, Fin 8]]] [[[0, 1], [1, 1]]] [Fin 9, Fin 9, Fin 9] = Inr w"
      "w ! 1 = Fin 6"
    using get_per_class_loss_entry [OF s, of 1 "[Fin 9, Fin 9, Fin 9]"]
    by (auto simp: flat3_def losses_of_class_def fl_mean_def)
  from v w have "v = w" by simp
  with v w s show ?thesis by simp
qed



text \<open>
  C1. The scenario of the specification: one 2x2 image, prediction \<open>[[0,0],[1,1]]\<close>,
  target \<open>[[0,1],[1,1]]\<close>, a zero matrix. The code adds the pixels predicted \<open>i\<close>
  with target \<open>j\<close> to \<^verbatim>\<open>acc_dict[j][i]\<close>, the cell of (target, predicted): the matrix is
  \<open>[[1,0],[1,2]]\<close>, the transpose of the \<open>[[1,1],[0,2]]\<close> that the docstring's
  (predicted, target) indexing gives.
\<close>

theorem confusion_cell_is_target_then_predicted:
  "get_per_class_accuracy [[[0, 0], [1, 1]]] [[[0, 1], [1, 1]]] [[0, 0], [0, 0]]
     = Inr [[1, 0], [1, 2]]"
  by (simp add: get_per_class_accuracy_def prediction_error_def flat3_def shape3_def upt_rec)

text \<open>
  C8. In the same scenario the whole matrix sums to the 4 pixels, but row 0 sums to 1, the
  number of pixels whose target is class 0, while 2 pixels are predicted as class 0.
\<close>

theorem confusion_row_counts_target_pixels:
  "\<exists>m. get_per_class_accuracy [[[0, 0], [1, 1]]] [[[0, 1], [1, 1]]] [[0, 0], [0, 0]] = Inr m
       \<and> sum_list (concat m) = 4
       \<and> sum_list (m ! 0) = 1
       \<and> length (filter (\<lambda>p. p = 0) (flat3 [[[0, 0], [1, 1 :: int]]])) = 2
       \<and> length (filter (\<lambda>t. t = 0) (flat3 [[[0, 1], [1, 1 :: int]]])) = 1"
  by (simp add: get_per_class_accuracy_def prediction_error_def flat3_def shape3_def upt_rec)

lemma jaccard_terms_error: "jaccard_terms xs ys = Inl e \<Longrightarrow> e = ZeroDivisionError"
  by (induction xs ys rule: jaccard_terms.induct)
     (auto simp: int_div_int_def bind_err_def split: if_splits sum.splits)

lemma jaccard_terms_zero:
  "c < length xs \<Longrightarrow> c < length ys \<Longrightarrow> ys ! c = 0 \<Longrightarrow> jaccard_terms xs ys = Inl ZeroDivisionError"
proof (induction xs ys arbitrary: c rule: jaccard_terms.induct)
  case (1 x xs y ys)
  show ?case
  proof (cases c)
    case 0
    then show ?thesis using 1 by (simp add: int_div_int_def)
  next
    case (Suc d)
    then have "jaccard_terms xs ys = Inl ZeroDivisionError"
      using 1 by (auto simp: int_div_int_def split: if_splits)
    then show ?thesis by (simp add: int_div_int_def)
  qed
qed simp_all

text \<open>
  C4. Whenever the union count of some class is zero, \<open>print_log\<close> raises the division
  by zero (Python's \<open>ZeroDivisionError\<close>, the error the specification names
  MetricComputationError): it returns no state, so no report is printed and no metric is
  appended.
\<close>

theorem print_log_zero_union_raises:
  assumes "c < length class_correct_pixels" and "c < length class_jacard_or"
    and "class_jacard_or ! c = 0"
  shows "print_log st class_correct_pixels class_jacard_or lss num_samples batch_size name
           use_acc_dict acc_dict tst = Inl ZeroDivisionError"
  using jaccard_terms_zero [OF assms]
  by (simp add: print_log_def float_div_int_def Let_def)



theorem print_log_zero_union_raises_witness:
  "(1::nat) < length [3, 0 :: int] \<and> (1::nat) < length [4, 0 :: int] \<and> [4, 0 :: int] ! 1 = 0 \<and>
   print_log (fresh_state 2) [3, 0] [4, 0] (Fin 1) 1 1 ''Test set'' True [[3, 0], [1, 0]] True
     = Inl ZeroDivisionError"
  using print_log_zero_union_raises [of 1 "[3, 0]" "[4, 0]" "fresh_state 2" "Fin 1" 1 1 "''Test set''" True "[[3, 0], [1, 0]]" True]
  by simp

lemma append_jaccard_simps [simp]:
  "loss (append_jaccard s j) = loss s"
  "accuracy (append_jaccard s j) = accuracy s"
  "per_class_loss (append_jaccard s j) = per_class_loss s"
  "per_class_accuracy (append_jaccard s j) = per_class_accuracy s"
  "confusion (append_jaccard s j) = confusion s"
  "jaccard_accuracy (append_jaccard s j) = map_option (\<lambda>js. js @ [j]) (jaccard_accuracy s)"
  by (auto simp: append_jaccard_def split: option.splits)

text \<open>
  C9. A log of the training loop (\<open>test = False\<close>) that returns appends the loss and the
  accuracy to \<open>train_stats\<close> and the Jaccard value to \<open>test_stats.jaccard_accuracy\<close>
  (when the model has that list); \<open>train_stats.jaccard_accuracy\<close> stays as it was.
\<close>

theorem print_log_training_jaccard_goes_to_test_stats:
  assumes "print_log st class_correct_pixels class_jacard_or lss num_samples batch_size name
             use_acc_dict acc_dict False = Inr st'"
  shows "\<exists>l a terms.
           float_div_int lss (num_samples * batch_size) = Inr l \<and>
           float_div_int (Fin (100 * real_of_int (sum_list class_correct_pixels)))
             (num_samples * batch_size * 1280 * 720) = Inr a \<and>
           jaccard_terms class_correct_pixels class_jacard_or = Inr terms \<and>
           loss (train_stats st') = loss (train_stats st) @ [l] \<and>
           accuracy (train_stats st') = accuracy (train_stats st) @ [a] \<and>
           jaccard_accuracy (train_stats st') = jaccard_accuracy (train_stats st) \<and>
           jaccard_accuracy (test_stats st')
             = map_option (\<lambda>js. js @ [fl_mean terms]) (jaccard_accuracy (test_stats st)) \<and>
           loss (test_stats st') = loss (test_stats st) \<and>
           accuracy (test_stats st') = accuracy (test_stats st)"
  using assms
  by (auto simp: print_log_def Let_def bind_err_eq_Inr split: if_splits)

theorem print_log_training_jaccard_goes_to_test_stats_witness:
  "\<exists>st'. print_log (fresh_state 2) [3, 1] [4, 2] (Fin 1) 1 1 ''Training Set'' False [[3, 0], [1, 1]] False = Inr st'
      \<and> jaccard_accuracy (train_stats st') = Some []
      \<and> jaccard_accuracy (test_stats st') = Some [Fin (5 / 8)]
      \<and> loss (train_stats st') = [Fin 1]
      \<and> loss (test_stats st') = []"
proof -
  obtain st' where r: "print_log (fresh_state 2) [3, 1] [4, 2] (Fin 1) 1 1 ''Training Set'' False [[3, 0], [1, 1]] False = Inr st'"
    by (simp add: print_log_def float_div_int_def int_div_int_def Let_def)
  show ?thesis
    using print_log_training_jaccard_goes_to_test_stats [OF r] r
    by (auto simp: float_div_int_def int_div_int_def fl_mean_def fresh_state_def fresh_stats_def)
qed

lemma forwarded_append [simp]: "forwarded (xs @ ys) = forwarded xs @ forwarded ys"
  by (induction xs rule: forwarded.induct) auto

lemma print_log_kinds:
  assumes "print_log st ccp cjo lss n bsz name use_acc_dict acc_dict tst = Inr st'"
  shows "map kind_of (trace st') = map kind_of (trace st)
           @ KReport # (if use_acc_dict then [KTable] else [])
         \<and> forwarded (trace st') = forwarded (trace st)
         \<and> per_class_accuracy (test_stats st') = per_class_accuracy (test_stats st)
         \<and> per_class_accuracy (train_stats st') = per_class_accuracy (train_stats st)
         \<and> jaccard_accuracy (train_stats st') = jaccard_accuracy (train_stats st)"
  using assms
  by (cases use_acc_dict; cases tst; clarsimp simp: print_log_def Let_def bind_err_eq_Inr)

lemma test_batch_step:
  assumes "test_batch e tr prior name use_crf visualize use_prior (st, cc, cj, tloss, bd) b
             = Inr (st', cc', cj', tloss', bd')"
  shows "bd' = bd + 1
         \<and> map kind_of (trace st') = map kind_of (trace st) @ test_batch_kinds tr visualize (bd + 1)
         \<and> length (per_class_accuracy (test_stats st'))
             = length (per_class_accuracy (test_stats st)) + (if (bd + 1) mod log_spacing tr = 0 then 1 else 0)"
proof -
  obtain raw data target where b: "b = (raw, data, target)" by (cases b) auto
  show ?thesis
  proof (cases "log_spacing tr = 0")
    case True
    then show ?thesis
      using assms unfolding b test_batch_def
      by (clarsimp simp: Let_def bind_err_eq_Inr py_mod_def)
  next
    case nz: False
    show ?thesis
    proof (cases "(bd + 1) mod log_spacing tr = 0")
      case True
      then show ?thesis
        using assms nz unfolding b test_batch_def test_batch_kinds_def
        by (clarsimp simp: Let_def bind_err_eq_Inr py_mod_def dest!: print_log_kinds)
    next
      case False
      then show ?thesis
        using assms nz unfolding b test_batch_def test_batch_kinds_def
        by (clarsimp simp: Let_def bind_err_eq_Inr py_mod_def)
    qed
  qed
qed

lemma test_loop_run:
  "test_loop e tr prior name use_crf visualize use_prior bs (st, cc, cj, tloss, bd)
       = Inr (st', cc', cj', tloss', bd') \<Longrightarrow>
   bd' = bd + int (length bs)
   \<and> map kind_of (trace st') = map kind_of (trace st)
        @ concat (map (test_batch_kinds tr visualize) [bd + 1..bd + int (length bs)])
   \<and> length (per_class_accuracy (test_stats st'))
        = length (per_class_accuracy (test_stats st))
          + length (filter (\<lambda>k. k mod log_spacing tr = 0) [bd + 1..bd + int (length bs)])"
proof (induction bs arbitrary: st cc cj tloss bd)
  case Nil
  then show ?case by simp
next
  case (Cons b bs)
  from Cons.prems obtain st1 cc1 cj1 tl1 bd1 where
    step: "test_batch e tr prior name use_crf visualize use_prior (st, cc, cj, tloss, bd) b
             = Inr (st1, cc1, cj1, tl1, bd1)"
    and rest: "test_loop e tr prior name use_crf visualize use_prior bs (st1, cc1, cj1, tl1, bd1)
             = Inr (st', cc', cj', tloss', bd')"
    by (auto simp: bind_err_eq_Inr)
  note s = test_batch_step [OF step]
  note r = Cons.IH [OF rest]
  have u: "[bd + 1..bd + int (length (b # bs))] = (bd + 1) # [bd1 + 1..bd1 + int (length bs)]"
  proof -
    have "bd1 = bd + 1" using s by simp
    moreover have "bd + 1 + 1 = bd + 2" "bd + 1 + int (length bs) = bd + int (length (b # bs))"
      by simp_all
    ultimately show ?thesis
      by (simp add: upto_rec1 [of "bd + 1"] add.assoc [symmetric])
  qed
  show ?case
    unfolding u using s r by simp
qed

text \<open>
  C10. \<open>iters_per_log\<close> has no effect on \<open>test\<close>: a run that returns returns the same
  state for every other value of it. Its trace is, batch after batch, the call of the
  network followed, exactly when the number of batches done is a multiple of the trainer's
  \<open>log_spacing\<close>, by the report, the table and the checkpoint; that many snapshots of the
  per-class accuracy are appended.
\<close>

theorem test_ignores_iters_per_log:
  assumes "test e tr test_loader dataset_name use_crf iters_per_log visualize use_prior st = Inr st'"
  shows "test e tr test_loader dataset_name use_crf iters_per_log' visualize use_prior st = Inr st'
         \<and> map kind_of (trace st') = map kind_of (trace st)
              @ concat (map (test_batch_kinds tr visualize) [1..int (length test_loader)])
         \<and> length (per_class_accuracy (test_stats st'))
              = length (per_class_accuracy (test_stats st))
                + length (filter (\<lambda>k. k mod log_spacing tr = 0) [1..int (length test_loader)])"
proof -
  from assms obtain prior cc cj tloss bd where
    "test_loop e tr prior dataset_name use_crf visualize use_prior test_loader
       (st\<lparr>training := False\<rparr>, replicate (num_classes tr) 0, replicate (num_classes tr) 0, Fin 0, 0)
       = Inr (st', cc, cj, tloss, bd)"
    by (auto simp: test_def bind_err_eq_Inr)
  from test_loop_run [OF this] assms show ?thesis
    by (simp add: test_def)
qed


lemmas run_simps =
  test_def test_batch_def train_def train_batch_def identity_net_def small_trainer_def two_pixel_batch_def
  fresh_state_def fresh_stats_def unbiased_prior_def sum_dim0_def div_dim0_def pixel_columns_def
  fl_mean_def fl_sub_def argmax_dim1_def argmax_def beats_def py_mod_def
  get_per_class_accuracy_def prediction_error_def flat3_def shape3_def
  correct_pixels_def jaccard_or_pixels_def byte_def print_log_def float_div_int_def int_div_int_def
  diagonal_def append_jaccard_def get_per_class_loss_def eq_mask_def masked_select_def mask_sum_def
  Let_def upt_rec numeral_2_eq_2

lemma test_small_run:
  "\<exists>st'. test identity_net small_trainer [two_pixel_batch, two_pixel_batch] ''Test set'' False 100 False False (fresh_state 2) = Inr st'"
  by (simp add: run_simps)

lemma train_batch_skip:
  "int idx < s \<Longrightarrow> train_batch e tr s vars (idx, b) = Inr vars"
  by (cases vars; cases b) (simp add: train_batch_def)

lemma train_loop_append:
  "train_loop e tr s (xs @ ys) vars = bind_err (train_loop e tr s xs vars) (train_loop e tr s ys)"
proof (induction xs arbitrary: vars)
  case Nil
  then show ?case by simp
next
  case (Cons x xs)
  show ?case
    by (cases "train_batch e tr s vars x") (simp_all add: Cons.IH)
qed

lemma train_loop_skip:
  "int (k + length bs) \<le> s \<Longrightarrow> train_loop e tr s (enumerate k bs) vars = Inr vars"
proof (induction bs arbitrary: k)
  case Nil
  then show ?case by simp
next
  case (Cons b bs)
  have "int k < s" using Cons.prems by simp
  moreover have "int (Suc k + length bs) \<le> s" using Cons.prems by simp
  ultimately show ?case
    by (simp add: train_batch_skip Cons.IH)
qed

lemma enumerate_split:
  "enumerate 0 bs = enumerate 0 (take k bs) @ enumerate (min k (length bs)) (drop k bs)"
proof -
  have "enumerate 0 (take k bs @ drop k bs) = enumerate 0 (take k bs) @ enumerate (0 + length (take k bs)) (drop k bs)"
    by (rule enumerate_append_eq)
  then show ?thesis by (simp add: min.commute)
qed

lemma train_loop_resume:
  "train_loop e tr s (enumerate 0 bs) vars
     = train_loop e tr s (enumerate (nat s) (drop (nat s) bs)) vars"
proof (cases "nat s \<le> length bs")
  case True
  have skip: "train_loop e tr s (enumerate 0 (take (nat s) bs)) vars = Inr vars"
  proof (cases "0 \<le> s")
    case True
    then show ?thesis using \<open>nat s \<le> length bs\<close> by (intro train_loop_skip) simp
  next
    case False
    then show ?thesis by simp
  qed
  have "train_loop e tr s (enumerate 0 bs) vars
        = bind_err (train_loop e tr s (enumerate 0 (take (nat s) bs)) vars)
            (train_loop e tr s (enumerate (min (nat s) (length bs)) (drop (nat s) bs)))"
    by (subst enumerate_split [of bs "nat s"]) (rule train_loop_append)
  then show ?thesis using True skip by (simp add: min_def)
next
  case False
  then have "train_loop e tr s (enumerate 0 bs) vars = Inr vars"
    by (intro train_loop_skip) simp
  then show ?thesis using False by simp
qed

lemma train_batch_step:
  assumes "train_batch e tr s (st, cc, cj, sl) (idx, raw, data, target) = Inr (st', cc', cj', sl')"
    and "\<not> int idx < s"
  shows "map kind_of (trace st') = map kind_of (trace st) @ train_batch_kinds tr idx
         \<and> forwarded (trace st') = forwarded (trace st) @ [data]
         \<and> jaccard_accuracy (train_stats st') = jaccard_accuracy (train_stats st)"
proof (cases "log_spacing tr = 0 \<or> save_spacing tr = 0")
  case True
  then show ?thesis
    using assms unfolding train_batch_def
    by (auto simp: Let_def bind_err_eq_Inr py_mod_def)
next
  case nz: False
  show ?thesis
  proof (cases "int idx mod log_spacing tr = 0")
    case True
    then show ?thesis
      using assms nz unfolding train_batch_def train_batch_kinds_def
      by (cases "int idx mod save_spacing tr = 0")
         (clarsimp simp: Let_def bind_err_eq_Inr py_mod_def dest!: print_log_kinds)+
  next
    case False
    then show ?thesis
      using assms nz unfolding train_batch_def train_batch_kinds_def
      by (cases "int idx mod save_spacing tr = 0")
         (clarsimp simp: Let_def bind_err_eq_Inr py_mod_def)+
  qed
qed

lemma train_loop_run:
  "train_loop e tr s (enumerate k bs) (st, cc, cj, sl) = Inr (st', cc', cj', sl') \<Longrightarrow>
   \<not> int k < s \<Longrightarrow>
   map kind_of (trace st') = map kind_of (trace st)
        @ concat (map (train_batch_kinds tr) [k..<k + length bs])
   \<and> forwarded (trace st') = forwarded (trace st) @ map (\<lambda>(raw, data, target). data) bs
   \<and> jaccard_accuracy (train_stats st') = jaccard_accuracy (train_stats st)"
proof (induction bs arbitrary: k st cc cj sl)
  case Nil
  then show ?case by simp
next
  case (Cons b bs)
  obtain raw data target where b: "b = (raw, data, target)" by (cases b) auto
  from Cons.prems(1) obtain st1 cc1 cj1 sl1 where
    step: "train_batch e tr s (st, cc, cj, sl) (k, raw, data, target) = Inr (st1, cc1, cj1, sl1)"
    and rest: "train_loop e tr s (enumerate (Suc k) bs) (st1, cc1, cj1, sl1) = Inr (st', cc', cj', sl')"
    by (auto simp: bind_err_eq_Inr b)
  note s1 = train_batch_step [OF step Cons.prems(2)]
  have "\<not> int (Suc k) < s" using Cons.prems(2) by simp
  note r = Cons.IH [OF rest this]
  have u: "[k..<k + length (b # bs)] = k # [Suc k..<Suc k + length bs]"
    by (simp add: upt_rec)
  show ?case
    unfolding u using s1 r by (simp add: b)
qed

theorem test_ignores_iters_per_log_witness:
  "\<exists>st'. test identity_net small_trainer [two_pixel_batch, two_pixel_batch, two_pixel_batch] ''Test set'' False 100 True False (fresh_state 2) = Inr st'
      \<and> test identity_net small_trainer [two_pixel_batch, two_pixel_batch, two_pixel_batch] ''Test set'' False 1 True False (fresh_state 2) = Inr st'
      \<and> map kind_of (trace st') = [KForward, KForward, KReport, KTable, KSaving, KSave, KVisualize, KForward]
      \<and> length (per_class_accuracy (test_stats st')) = 1"
proof -
  obtain st' where r: "test identity_net small_trainer [two_pixel_batch, two_pixel_batch, two_pixel_batch] ''Test set'' False 100 True False (fresh_state 2) = Inr st'"
    by (simp add: run_simps)
  show ?thesis
    using test_ignores_iters_per_log [OF r, of 1] r
    by (simp add: test_batch_kinds_def small_trainer_def fresh_state_def fresh_stats_def upto_rec1)
qed

text \<open>
  C3. Two batches with \<open>log_spacing = 100\<close>: \<open>test\<close> returns having called the network
  twice and reported nothing; no loss, accuracy or Jaccard value is appended. Nothing
  follows the loop of \<open>SegmentationTrainer.test\<close>, while \<open>test\<close> of
  \<^verbatim>\<open>fcn_2class.py\<close> ends with a \<open>print_log\<close> over the whole dataset.
\<close>

theorem test_emits_no_final_report:
  "\<exists>st'. test identity_net (small_trainer\<lparr>log_spacing := 100\<rparr>) [two_pixel_batch, two_pixel_batch]
            ''Test set'' False 100 False False (fresh_state 2) = Inr st'
      \<and> map kind_of (trace st') = [KForward, KForward]
      \<and> loss (test_stats st') = [] \<and> accuracy (test_stats st') = []
      \<and> jaccard_accuracy (test_stats st') = Some []"
  by (simp add: run_simps)

lemma sigmoid_pos: "0 < sigmoid a"
  by (simp add: sigmoid_def add_pos_pos)

lemma sigmoid_less_one: "sigmoid a < 1"
  by (simp add: sigmoid_def add_pos_pos)

lemma pixel_columns_one_pixel: "pixel_columns [[[a]], [[b]]] = [[[a, b]]]"
  by (simp add: pixel_columns_def)

lemma broadcast3_one_pixel:
  "broadcast3 [[[a]], [[b]]] [[Suc 0], [Suc 0]] = Some [[[a]], [[b]]]"
  by (simp add: broadcast3_def broadcast_to_def)

lemma squash_one_pixel:
  "squash [[[p0]], [[p1]]] [[[x0]], [[x1]]]
     = [[[fl_sigmoid (fl_sub x0 p0)]], [[fl_sigmoid (fl_sub x1 p1)]]]"
  by (simp add: squash_def)

lemma renormalize_one_pixel:
  "renormalize [[[a]], [[b]]]
     = [[[fl_div a (fl_add a (fl_add b (Fin 0)))]], [[fl_div b (fl_add a (fl_add b (Fin 0)))]]]"
  by (simp add: renormalize_def sum_dim0_def div_dim0_def pixel_columns_one_pixel)

lemma renormalize_squash_finite:
  "\<exists>r0 r1. renormalize (squash [[[Fin p0]], [[Fin p1]]] [[[Fin x0]], [[Fin x1]]])
             = [[[Fin r0]], [[Fin r1]]] \<and> 0 < r0 \<and> r0 < 1 \<and> 0 < r1 \<and> r1 < 1"
proof -
  define a where "a = sigmoid (x0 - p0)"
  define b where "b = sigmoid (x1 - p1)"
  have pos: "0 < a" "0 < b" by (simp_all add: a_def b_def sigmoid_pos)
  then have nz: "a + b \<noteq> 0" by simp
  have "renormalize (squash [[[Fin p0]], [[Fin p1]]] [[[Fin x0]], [[Fin x1]]])
          = [[[Fin (a / (a + b))]], [[Fin (b / (a + b))]]]"
    using nz by (simp add: squash_one_pixel renormalize_one_pixel fl_sub_def a_def b_def)
  moreover have "0 < a / (a + b)" "a / (a + b) < 1" "0 < b / (a + b)" "b / (a + b) < 1"
    using pos by (simp_all add: field_simps)
  ultimately show ?thesis by blast
qed

lemma fl_log_log_prob: "0 < r \<Longrightarrow> r < 1 \<Longrightarrow> fl_log (fl_log (Fin r)) = NaN"
proof -
  assume "0 < r" "r < 1"
  then have "ln r < 0" by simp
  then show ?thesis using \<open>0 < r\<close> by simp
qed

lemma fl_log_exp [simp]: "fl_log (fl_exp (Fin x)) = Fin x"
  by simp

lemma argmax_nan_nan: "argmax [NaN, NaN] = 0"
  by (simp add: argmax_def beats_def)

text \<open>
  C2. A batch of two one-pixel images with class scores \<open>(0, 1)\<close> and a uniform
  distribution (penalty 1/2 for both classes). The logarithm inside the loop is taken of
  the whole batch at every image, so the first image, already in log space after its own
  turn, has the logarithm of negative numbers taken at the second: its scores are NaN and
  its predicted class is 0, while the raw scores give class 1.
\<close>

theorem prior_correction_batch_of_two_changes_argmax:
  "\<exists>prior out pred.
      unbiased_prior 2 [[[Fin (1 / 2)]], [[Fin (1 / 2)]]] = Inr prior
    \<and> prior = [[[Fin (1 / 2)]], [[Fin (1 / 2)]]]
    \<and> prior_correction prior [[[[Fin 0]], [[Fin 1]]], [[[Fin 0]], [[Fin 1]]]] = Inr out
    \<and> out ! 0 = [[[NaN]], [[NaN]]]
    \<and> argmax_dim1 out = Inr pred \<and> pred ! 0 = [[0]]
    \<and> argmax_dim1 [[[[Fin 0]], [[Fin 1]]], [[[Fin 0]], [[Fin 1]]]] = Inr [[[1]], [[1]]]"
proof -
  let ?P = "[[[Fin (1 / 2)]], [[Fin (1 / 2)]]]"
  have prior: "unbiased_prior 2 ?P = Inr ?P"
    by (simp add: unbiased_prior_def sum_dim0_def div_dim0_def pixel_columns_one_pixel
          fl_mean_def fl_sub_def upt_rec numeral_2_eq_2)
  obtain r0 r1 where A: "renormalize (squash ?P [[[Fin 1]], [[Fin (exp 1)]]]) = [[[Fin r0]], [[Fin r1]]]"
    and r: "0 < r0" "r0 < 1" "0 < r1" "r1 < 1"
    using renormalize_squash_finite [of "1 / 2" "1 / 2" 1 "exp 1"] by auto
  obtain s0 s1 where B: "renormalize (squash ?P [[[Fin 0]], [[Fin 1]]]) = [[[Fin s0]], [[Fin s1]]]"
    and s: "0 < s0" "s0 < 1" "0 < s1" "s1 < 1"
    using renormalize_squash_finite [of "1 / 2" "1 / 2" 0 1] by auto
  have out: "prior_correction ?P [[[[Fin 0]], [[Fin 1]]], [[[Fin 0]], [[Fin 1]]]]
          = Inr [[[[NaN]], [[NaN]]], [[[Fin (ln s0)]], [[Fin (ln s1)]]]]"
    using r s by (simp add: prior_correction_def upt_rec numeral_2_eq_2 shape3_def broadcast3_one_pixel A B)
  have pred: "argmax_dim1 [[[[NaN]], [[NaN]]], [[[Fin (ln s0)]], [[Fin (ln s1)]]]]
          = Inr [[[0]], [[int (argmax [Fin (ln s0), Fin (ln s1)])]]]"
    by (simp add: argmax_dim1_def pixel_columns_one_pixel argmax_nan_nan)
  have raw: "argmax_dim1 [[[[Fin 0]], [[Fin 1]]], [[[Fin 0]], [[Fin 1]]]] = Inr [[[1]], [[1]]]"
    by (simp add: argmax_dim1_def pixel_columns_one_pixel argmax_def beats_def)
  show ?thesis
    using prior out pred raw by simp
qed

text \<open>
  C5, as stated, fails: in a batch of three images whose scores are all 0, the third
  image reaches its turn as minus infinity (the logarithm taken twice of \<open>exp 0\<close>), its
  sigmoid is 0 for both classes, the denominator is 0, and prior correction returns a
  result, with NaN at that pixel; no error is raised.
\<close>

theorem zero_denominator_divides_and_continues:
  "\<exists>mid out.
      prior_loop [[[Fin (1 / 2)]], [[Fin (1 / 2)]]] [0, 1]
        (map (map (map (map fl_exp)))
           [[[[Fin 0]], [[Fin 0]]], [[[Fin 0]], [[Fin 0]]], [[[Fin 0]], [[Fin 0]]]]) = Inr mid
    \<and> sum_dim0 (squash [[[Fin (1 / 2)]], [[Fin (1 / 2)]]] (mid ! 2)) = [[Fin 0]]
    \<and> prior_correction [[[Fin (1 / 2)]], [[Fin (1 / 2)]]]
         [[[[Fin 0]], [[Fin 0]]], [[[Fin 0]], [[Fin 0]]], [[[Fin 0]], [[Fin 0]]]] = Inr out
    \<and> out ! 2 = [[[NaN]], [[NaN]]]"
proof -
  let ?P = "[[[Fin (1 / 2)]], [[Fin (1 / 2)]]]"
  obtain r0 r1 where A: "renormalize (squash ?P [[[Fin 1]], [[Fin 1]]]) = [[[Fin r0]], [[Fin r1]]]"
    and r: "0 < r0" "r0 < 1" "0 < r1" "r1 < 1"
    using renormalize_squash_finite [of "1 / 2" "1 / 2" 1 1] by auto
  obtain s0 s1 where B: "renormalize (squash ?P [[[Fin 0]], [[Fin 0]]]) = [[[Fin s0]], [[Fin s1]]]"
    and s: "0 < s0" "s0 < 1" "0 < s1" "s1 < 1"
    using renormalize_squash_finite [of "1 / 2" "1 / 2" 0 0] by auto
  have C: "squash ?P [[[NInf]], [[NInf]]] = [[[Fin 0]], [[Fin 0]]]"
    by (simp add: squash_one_pixel fl_sub_def)
  have D: "renormalize [[[Fin 0]], [[Fin 0]]] = [[[NaN]], [[NaN]]]"
    by (simp add: renormalize_one_pixel)
  have mid: "prior_loop ?P [0, 1]
        (map (map (map (map fl_exp)))
           [[[[Fin 0]], [[Fin 0]]], [[[Fin 0]], [[Fin 0]]], [[[Fin 0]], [[Fin 0]]]])
        = Inr [[[[NaN]], [[NaN]]], [[[Fin (ln s0)]], [[Fin (ln s1)]]], [[[NInf]], [[NInf]]]]"
    using r s by (simp add: shape3_def broadcast3_one_pixel A B)
  have out: "prior_correction ?P
         [[[[Fin 0]], [[Fin 0]]], [[[Fin 0]], [[Fin 0]]], [[[Fin 0]], [[Fin 0]]]]
        = Inr [[[[NaN]], [[NaN]]], [[[NaN]], [[NaN]]], [[[NaN]], [[NaN]]]]"
    using r s by (simp add: prior_correction_def upt_rec numeral_3_eq_3 shape3_def broadcast3_one_pixel A B C D)
  have den: "sum_dim0 (squash ?P [[[NInf]], [[NInf]]]) = [[Fin 0]]"
    by (simp add: C sum_dim0_def pixel_columns_one_pixel)
  show ?thesis
    using mid out den by simp
qed

lemma rectangular_nth:
  assumes "rectangular C H W t" "c < C"
  shows "length (t ! c) = H" and "h < H \<Longrightarrow> length (t ! c ! h) = W"
  using assms by (auto simp: rectangular_def list_all_length)

lemma pixel_columns_nth:
  assumes rect: "rectangular C H W t" and C: "0 < C" and h: "h < H" and w: "w < W"
  shows "pixel_columns t ! h ! w = map (\<lambda>c. t ! c ! h ! w) [0..<C]"
    and "length (pixel_columns t) = H" and "length (pixel_columns t ! h) = W"
proof -
  have len: "length t = C" using rect by (simp add: rectangular_def)
  have t1: "transpose t = map (\<lambda>i. map (\<lambda>j. t ! j ! i) [0..<length t]) [0..<H]"
    using rect C len by (intro transpose_rectangle) (auto simp: rectangular_nth)
  let ?row = "map (\<lambda>c. t ! c ! h) [0..<C]"
  have row: "transpose t ! h = ?row" using h by (simp add: t1 len)
  have t2: "transpose ?row = map (\<lambda>i. map (\<lambda>j. ?row ! j ! i) [0..<length ?row]) [0..<W]"
    using rect C h by (intro transpose_rectangle) (auto simp: rectangular_nth)
  have cols: "pixel_columns t ! h = transpose ?row"
    using h by (simp add: pixel_columns_def t1 len)
  show "length (pixel_columns t) = H" by (simp add: pixel_columns_def t1)
  show "length (pixel_columns t ! h) = W" by (simp add: cols t2)
  have "pixel_columns t ! h ! w = map (\<lambda>j. ?row ! j ! w) [0..<C]"
    using w by (simp add: cols t2)
  also have "\<dots> = map (\<lambda>c. t ! c ! h ! w) [0..<C]"
    by (rule map_cong) auto
  finally show "pixel_columns t ! h ! w = map (\<lambda>c. t ! c ! h ! w) [0..<C]" .
qed

lemma sum_dim0_nth:
  assumes "rectangular C H W t" "0 < C" "h < H" "w < W"
  shows "sum_dim0 t ! h ! w = fl_sum (map (\<lambda>c. t ! c ! h ! w) [0..<C])"
    and "length (sum_dim0 t) = H" and "length (sum_dim0 t ! h) = W"
  using pixel_columns_nth [OF assms] assms(3,4) by (simp_all add: sum_dim0_def)

lemma div_dim0_nth:
  assumes "rectangular C H W t" "c < C" "h < H" "w < W"
    and "length n = H" "length (n ! h) = W"
  shows "div_dim0 t n ! c ! h ! w = fl_div (t ! c ! h ! w) (n ! h ! w)"
  using assms rectangular_nth [OF assms(1,2)] by (simp add: div_dim0_def rectangular_def)

lemma squash_nth:
  assumes "rectangular C H W img" "rectangular C H W prior" "c < C" "h < H" "w < W"
  shows "squash prior img ! c ! h ! w = fl_sigmoid (fl_sub (img ! c ! h ! w) (prior ! c ! h ! w))"
  using assms rectangular_nth [OF assms(1) assms(3)] rectangular_nth [OF assms(2) assms(3)]
  by (simp add: squash_def rectangular_def)

lemma squash_rectangular:
  assumes "rectangular C H W img" "rectangular C H W prior"
  shows "rectangular C H W (squash prior img)"
  using assms
  by (auto simp: squash_def rectangular_def list_all_length)

lemma nonneg_or_nan_sigmoid: "nonneg_or_nan (fl_sigmoid x)"
  by (cases x) (simp_all add: less_imp_le sigmoid_pos)

lemma nonneg_or_nan_add: "nonneg_or_nan x \<Longrightarrow> nonneg_or_nan y \<Longrightarrow> nonneg_or_nan (fl_add x y)"
  by (cases x; cases y) simp_all

lemma nonneg_or_nan_sum: "list_all nonneg_or_nan xs \<Longrightarrow> nonneg_or_nan (fl_sum xs)"
  by (induction xs) (simp_all add: nonneg_or_nan_add)

lemma fl_add_zero: "nonneg_or_nan x \<Longrightarrow> nonneg_or_nan y \<Longrightarrow> fl_add x y = Fin 0 \<Longrightarrow> x = Fin 0 \<and> y = Fin 0"
  by (cases x; cases y) (auto simp: add_nonneg_eq_0_iff)

lemma fl_sum_zero:
  "list_all nonneg_or_nan xs \<Longrightarrow> fl_sum xs = Fin 0 \<Longrightarrow> x \<in> set xs \<Longrightarrow> x = Fin 0"
proof (induction xs)
  case Nil
  then show ?case by simp
next
  case (Cons y ys)
  from Cons.prems have "y = Fin 0 \<and> fl_sum ys = Fin 0"
    by (intro fl_add_zero) (simp_all add: nonneg_or_nan_sum)
  then show ?case using Cons by auto
qed

lemma prior_loop_error:
  "prior_loop prior cs outp = Inl e \<Longrightarrow> list_all (\<lambda>i. i < length outp) cs \<Longrightarrow> e = RuntimeError"
proof (induction cs arbitrary: outp)
  case Nil
  then show ?case by simp
next
  case (Cons i cs)
  show ?case
  proof (cases "broadcast3 prior (shape3 (outp ! i))")
    case None
    then show ?thesis using Cons.prems by simp
  next
    case (Some pr)
    let ?o = "map (map (map (map fl_log))) (outp[i := renormalize (squash pr (outp ! i))])"
    have "prior_loop prior cs ?o = Inl e" using Cons.prems Some by simp
    moreover have "list_all (\<lambda>i. i < length ?o) cs" using Cons.prems by simp
    ultimately show ?thesis by (rule Cons.IH)
  qed
qed

lemma prior_correction_error: "prior_correction prior output = Inl e \<Longrightarrow> e = RuntimeError"
  unfolding prior_correction_def
  by (erule prior_loop_error) (simp add: list_all_iff)

lemma renormalize_zero_nan:
  assumes "rectangular C H W img" and "rectangular C H W prior"
    and "c < C" and "h < H" and "w < W"
    and "sum_dim0 (squash prior img) ! h ! w = Fin 0"
  shows "renormalize (squash prior img) ! c ! h ! w = NaN"
proof -
  let ?s = "squash prior img"
  have rect: "rectangular C H W ?s" using assms(1,2) by (rule squash_rectangular)
  have C: "0 < C" using assms(3) by simp
  note sn = sum_dim0_nth [OF rect C assms(4,5)]
  have all: "list_all nonneg_or_nan (map (\<lambda>c. ?s ! c ! h ! w) [0..<C])"
    using assms by (simp add: list_all_iff squash_nth nonneg_or_nan_sigmoid)
  have "?s ! c ! h ! w \<in> set (map (\<lambda>c. ?s ! c ! h ! w) [0..<C])"
    using assms(3) by simp
  with all assms(6) have z: "?s ! c ! h ! w = Fin 0"
    unfolding sn(1) by (rule fl_sum_zero)
  have "renormalize ?s ! c ! h ! w = fl_div (?s ! c ! h ! w) (sum_dim0 ?s ! h ! w)"
    unfolding renormalize_def Let_def
    using rect assms(3,4,5) sn(2,3) by (rule div_dim0_nth)
  then show ?thesis
    using z assms(6) by simp
qed

text \<open>
  X1 (with C9). A whole call of \<open>train\<close> that returns leaves
  \<open>train_stats.jaccard_accuracy\<close> as it was, however many times it logged.
\<close>

theorem train_keeps_train_jaccard:
  assumes "train e tr train_loader epoch start_index st = Inr st'"
  shows "jaccard_accuracy (train_stats st') = jaccard_accuracy (train_stats st)"
proof -
  let ?k = "nat start_index"
  from assms obtain cc cj sl where
    "train_loop e tr start_index (enumerate 0 train_loader)
       (st\<lparr>training := True\<rparr>, replicate (num_classes tr) 0, replicate (num_classes tr) 0, Fin 0)
       = Inr (st', cc, cj, sl)"
    by (auto simp: train_def bind_err_eq_Inr)
  then have run: "train_loop e tr start_index (enumerate ?k (drop ?k train_loader))
       (st\<lparr>training := True\<rparr>, replicate (num_classes tr) 0, replicate (num_classes tr) 0, Fin 0)
       = Inr (st', cc, cj, sl)"
    by (simp add: train_loop_resume)
  have "\<not> int ?k < start_index" by simp
  from train_loop_run [OF run this] show ?thesis by simp
qed

theorem train_keeps_train_jaccard_witness:
  "\<exists>st'. train identity_net small_trainer [two_pixel_batch] 0 0 (fresh_state 2) = Inr st'
      \<and> jaccard_accuracy (train_stats st') = Some []
      \<and> jaccard_accuracy (test_stats st') = Some [Fin 1]"
proof -
  obtain st' where r: "train identity_net small_trainer [two_pixel_batch] 0 0 (fresh_state 2) = Inr st'"
    and j: "jaccard_accuracy (test_stats st') = Some [Fin 1]"
    by (simp add: run_simps enumerate_eq_zip)
  show ?thesis
    using train_keeps_train_jaccard [OF r] r j
    by (simp add: fresh_state_def fresh_stats_def)
qed

text \<open>
  With C4: an evaluation run that logs after a batch in which class 1 is neither predicted
  nor a target ends in the division error.
\<close>

theorem test_raises_on_absent_class:
  "test identity_net (small_trainer\<lparr>log_spacing := 1\<rparr>)
     [((), [[[[Fin 1, Fin 1]], [[Fin 0, Fin 0]]]], [[[0, 0]]])]
     ''Test set'' False 100 False False (fresh_state 2) = Inl ZeroDivisionError"
  by (simp add: run_simps)

lemma square_nth: "square n m \<Longrightarrow> t < n \<Longrightarrow> length (m ! t) = n"
  by (simp add: square_def list_all_length)

lemma square_update:
  "square n m \<Longrightarrow> j < n \<Longrightarrow> square n (m[j := (m ! j)[i := v]])"
  by (auto simp: square_def list_all_length nth_list_update)

lemma acc_inner_cells:
  assumes "shape3 pred = shape3 target" and "i < n"
  shows "square n acc_dict \<Longrightarrow> list_all (\<lambda>j. j < n) js \<Longrightarrow> distinct js \<Longrightarrow>
         \<exists>m. acc_inner pred target i js acc_dict = Inr m \<and> square n m \<and>
             (\<forall>t<n. \<forall>p<n. m ! t ! p = acc_dict ! t ! p
                + (if p = i \<and> t \<in> set js then int (prediction_error pred target (int i) (int t)) else 0))"
proof (induction js arbitrary: acc_dict)
  case Nil
  then show ?case by simp
next
  case (Cons j js)
  let ?a = "acc_dict[j := (acc_dict ! j)[i := acc_dict ! j ! i
                 + int (prediction_error pred target (int i) (int j))]]"
  have j: "j < n" and js: "list_all (\<lambda>j. j < n) js" and d: "distinct js" "j \<notin> set js"
    using Cons.prems by simp_all
  have len: "length acc_dict = n" "length (acc_dict ! j) = n"
    using Cons.prems(1) j by (simp_all add: square_def list_all_length)
  have sq: "square n ?a" using Cons.prems(1) j by (rule square_update)
  from Cons.IH [OF sq js d(1)] obtain m where
    m: "acc_inner pred target i js ?a = Inr m" "square n m"
       "\<forall>t<n. \<forall>p<n. m ! t ! p = ?a ! t ! p
           + (if p = i \<and> t \<in> set js then int (prediction_error pred target (int i) (int t)) else 0)"
    by blast
  have step: "acc_inner pred target i (j # js) acc_dict = Inr m"
    using m(1) assms j len by simp
  have cells: "m ! t ! p = acc_dict ! t ! p
         + (if p = i \<and> t \<in> set (j # js) then int (prediction_error pred target (int i) (int t)) else 0)"
    if "t < n" "p < n" for t p
  proof -
    have "?a ! t ! p = acc_dict ! t ! p
            + (if p = i \<and> t = j then int (prediction_error pred target (int i) (int t)) else 0)"
      using that len assms(2) by (cases "t = j"; cases "p = i") (simp_all add: nth_list_update)
    then show ?thesis using m(3) that d(2) by auto
  qed
  show ?case using step m(2) cells by blast
qed

lemma acc_outer_cells:
  assumes "shape3 pred = shape3 target"
  shows "square n acc_dict \<Longrightarrow> list_all (\<lambda>i. i < n) cs \<Longrightarrow> distinct cs \<Longrightarrow>
         \<exists>m. acc_outer pred target cs acc_dict = Inr m \<and> square n m \<and>
             (\<forall>t<n. \<forall>p<n. m ! t ! p = acc_dict ! t ! p
                + (if p \<in> set cs then int (prediction_error pred target (int p) (int t)) else 0))"
proof (induction cs arbitrary: acc_dict)
  case Nil
  then show ?case by simp
next
  case (Cons i cs)
  have i: "i < n" and cs: "list_all (\<lambda>i. i < n) cs" and d: "distinct cs" "i \<notin> set cs"
    using Cons.prems by simp_all
  have len: "length acc_dict = n" "length (acc_dict ! i) = n"
    using Cons.prems(1) i by (simp_all add: square_def list_all_length)
  have "list_all (\<lambda>j. j < n) [0..<n]" "distinct [0..<n]" by (simp_all add: list_all_iff)
  from acc_inner_cells [OF assms i Cons.prems(1) this] obtain a where
    a: "acc_inner pred target i [0..<n] acc_dict = Inr a" "square n a"
       "\<forall>t<n. \<forall>p<n. a ! t ! p = acc_dict ! t ! p
           + (if p = i \<and> t \<in> set [0..<n] then int (prediction_error pred target (int i) (int t)) else 0)"
    by blast
  from Cons.IH [OF a(2) cs d(1)] obtain m where
    m: "acc_outer pred target cs a = Inr m" "square n m"
       "\<forall>t<n. \<forall>p<n. m ! t ! p = a ! t ! p
           + (if p \<in> set cs then int (prediction_error pred target (int p) (int t)) else 0)"
    by blast
  have step: "acc_outer pred target (i # cs) acc_dict = Inr m"
    using a(1) m(1) i len by simp
  have cells: "m ! t ! p = acc_dict ! t ! p
         + (if p \<in> set (i # cs) then int (prediction_error pred target (int p) (int t)) else 0)"
    if "t < n" "p < n" for t p
    using a(3) m(3) that d(2) by auto
  show ?case using step m(2) cells by blast
qed

text \<open>
  X2 (with C1 and C8). What the accumulator does: for prediction and target of one shape
  and an \<open>n x n\<close> matrix it raises nothing and adds, to the cell in row \<open>t\<close> and column
  \<open>p\<close>, the number of pixels whose target is \<open>t\<close> and whose prediction is \<open>p\<close>.
\<close>

theorem get_per_class_accuracy_cell:
  assumes "shape3 pred = shape3 target" and "square n acc_dict" and "t < n" and "p < n"
  shows "\<exists>m. get_per_class_accuracy pred target acc_dict = Inr m \<and> square n m \<and>
           m ! t ! p = acc_dict ! t ! p + int (prediction_error pred target (int p) (int t))"
proof -
  have n: "length acc_dict = n" using assms(2) by (simp add: square_def)
  have "list_all (\<lambda>i. i < n) [0..<n]" "distinct [0..<n]" by (simp_all add: list_all_iff)
  from acc_outer_cells [OF assms(1,2) this] assms(3,4) show ?thesis
    by (auto simp: get_per_class_accuracy_def n)
qed

theorem get_per_class_accuracy_cell_witness:
  "shape3 [[[0, 0], [1, 1 :: int]]] = shape3 [[[0, 1], [1, 1 :: int]]] \<and> square 2 [[0, 0], [0, 0 :: int]]
   \<and> (\<exists>m. get_per_class_accuracy [[[0, 0], [1, 1]]] [[[0, 1], [1, 1]]] [[0, 0], [0, 0]] = Inr m
          \<and> m ! 1 ! 0 = 1)"
proof -
  have a: "shape3 [[[0, 0], [1, 1 :: int]]] = shape3 [[[0, 1], [1, 1 :: int]]]"
    by (simp add: shape3_def)
  have b: "square 2 [[0, 0], [0, 0 :: int]]" by (simp add: square_def)
  show ?thesis
    using get_per_class_accuracy_cell [OF a b, of 1 0] a b
    by (auto simp: prediction_error_def flat3_def)
qed

lemma is_fin_val: "is_fin v \<Longrightarrow> v = Fin (fl_val v)"
  by (cases v) simp_all

lemma rectangular_shape3: "rectangular C H W t \<Longrightarrow> shape3 t = replicate C (replicate H W)"
proof -
  assume r: "rectangular C H W t"
  have "map length plane = replicate H W" if "plane \<in> set t" for plane
  proof -
    have "length plane = H" "\<forall>row\<in>set plane. length row = W"
      using r that by (auto simp: rectangular_def list_all_iff)
    then have "map length plane = map (\<lambda>_. W) plane" by (intro map_cong) simp_all
    then show ?thesis using \<open>length plane = H\<close> by (simp add: map_replicate_const)
  qed
  then have "map (map length) t = map (\<lambda>_. replicate H W) t"
    by (intro map_cong) simp_all
  then show ?thesis using r by (simp add: shape3_def rectangular_def map_replicate_const)
qed

lemma rectangular_map3 [simp]: "rectangular C H W (map (map (map f)) t) = rectangular C H W t"
  by (simp add: rectangular_def list_all_iff)

lemma rectangular_uniform_penalty: "rectangular C H W (uniform_penalty C H W k)"
  by (simp add: rectangular_def uniform_penalty_def list_all_iff)

lemma rectangular_div_dim0:
  "rectangular C H W t \<Longrightarrow> length n = H \<Longrightarrow> list_all (\<lambda>row. length row = W) n \<Longrightarrow>
     rectangular C H W (div_dim0 t n)"
  by (auto simp: rectangular_def div_dim0_def list_all_length)

lemma sigmoid_strict_mono: "x < y \<Longrightarrow> sigmoid x < sigmoid y"
proof -
  assume "x < y"
  then have "exp (- y) < exp (- x)" by simp
  then have "1 + exp (- y) < 1 + exp (- x)" by simp
  moreover have "0 < 1 + exp (- y)" by (simp add: add_pos_pos)
  ultimately show ?thesis
    unfolding sigmoid_def by (simp add: frac_less2)
qed

lemma fl_sum_Fin_pos:
  "cs \<noteq> [] \<Longrightarrow> list_all (\<lambda>c. 0 < f c) cs \<Longrightarrow>
     \<exists>S. fl_sum (map (\<lambda>c. Fin (f c)) cs) = Fin S \<and> 0 < S"
proof (induction cs)
  case Nil
  then show ?case by simp
next
  case (Cons c cs)
  show ?case
  proof (cases "cs = []")
    case True
    then show ?thesis using Cons.prems by simp
  next
    case False
    then obtain S where "fl_sum (map (\<lambda>c. Fin (f c)) cs) = Fin S" "0 < S"
      using Cons by auto
    then show ?thesis using Cons.prems by (simp add: add_pos_pos)
  qed
qed

lemma argmax_from_mono:
  assumes mono: "\<And>a b. a < b \<longleftrightarrow> g a < g b"
  shows "argmax_from bi (Fin (g b)) k (map (\<lambda>y. Fin (g y)) ys) = argmax_from bi (Fin b) k (map Fin ys)"
proof (induction ys arbitrary: bi b k)
  case Nil
  then show ?case by simp
next
  case (Cons y ys)
  have "beats (Fin (g y)) (Fin (g b)) = beats (Fin y) (Fin b)"
    using mono [of b y] by (simp add: beats_def)
  then show ?case by (simp add: Cons.IH)
qed

lemma argmax_mono:
  assumes mono: "\<And>a b. a < b \<longleftrightarrow> g a < g b"
  shows "argmax (map (\<lambda>y. Fin (g y)) ys) = argmax (map Fin ys)"
  by (cases ys) (simp_all add: argmax_def argmax_from_mono [of g, OF mono])

lemma nth_map3:
  "rectangular C H W t \<Longrightarrow> c < C \<Longrightarrow> h < H \<Longrightarrow> w < W \<Longrightarrow>
     map (map (map f)) t ! c ! h ! w = f (t ! c ! h ! w)"
  by (simp add: rectangular_def list_all_length)

lemma pixel_columns_length:
  assumes rect: "rectangular C H W t" and C: "0 < C"
  shows "length (pixel_columns t) = H" and "h < H \<Longrightarrow> length (pixel_columns t ! h) = W"
proof -
  have len: "length t = C" using rect by (simp add: rectangular_def)
  have t1: "transpose t = map (\<lambda>i. map (\<lambda>j. t ! j ! i) [0..<length t]) [0..<H]"
    using rect C len by (intro transpose_rectangle) (auto simp: rectangular_nth)
  show "length (pixel_columns t) = H" by (simp add: pixel_columns_def t1)
  assume h: "h < H"
  let ?row = "map (\<lambda>c. t ! c ! h) [0..<C]"
  have t2: "transpose ?row = map (\<lambda>i. map (\<lambda>j. ?row ! j ! i) [0..<length ?row]) [0..<W]"
    using rect C h by (intro transpose_rectangle) (auto simp: rectangular_nth)
  have "pixel_columns t ! h = transpose ?row"
    using h by (simp add: pixel_columns_def t1 len)
  then show "length (pixel_columns t ! h) = W" by (simp add: t2)
qed

lemma renormalize_rectangular:
  assumes "rectangular C H W t" "0 < C"
  shows "rectangular C H W (renormalize t)"
proof -
  have "length (sum_dim0 t) = H"
    using pixel_columns_length(1) [OF assms] by (simp add: sum_dim0_def)
  moreover have "list_all (\<lambda>row. length row = W) (sum_dim0 t)"
    using pixel_columns_length [OF assms] by (simp add: sum_dim0_def list_all_length)
  ultimately show ?thesis
    unfolding renormalize_def Let_def using assms(1) by (intro rectangular_div_dim0)
qed

lemma those_map_Some: "those (map Some xs) = Some xs"
  by (induction xs) simp_all

lemma those_Some_nth:
  "those xs = Some ys \<Longrightarrow> length ys = length xs \<and> (\<forall>i<length xs. xs ! i = Some (ys ! i))"
proof (induction xs arbitrary: ys)
  case Nil
  then show ?case by simp
next
  case (Cons x xs)
  then obtain y zs where x: "x = Some y" and zs: "those xs = Some zs" and ys: "ys = y # zs"
    by (auto split: option.splits)
  from Cons.IH [OF zs] show ?case
    by (auto simp: x ys nth_Cons split: nat.splits)
qed

lemma broadcast_to_length: "broadcast_to xs n = Some ys \<Longrightarrow> length ys = n"
  by (auto simp: broadcast_to_def split: if_splits)

lemma map2_broadcast_rows:
  "length xs = m \<Longrightarrow> list_all (\<lambda>x. length x = n) xs \<Longrightarrow>
     map2 broadcast_to xs (replicate m n) = map Some xs"
  by (rule nth_equalityI) (auto simp: list_all_length broadcast_to_def)

lemma broadcast3_rectangular:
  assumes "rectangular C H W prior"
  shows "broadcast3 prior (replicate C (replicate H W)) = Some prior"
proof -
  have len: "length prior = C" using assms by (simp add: rectangular_def)
  have "map2 (\<lambda>plane lens.
                   case broadcast_to plane (length lens) of
                     None \<Rightarrow> None
                   | Some rows \<Rightarrow> those (map2 broadcast_to rows lens))
                 prior (replicate C (replicate H W)) = map Some prior"
  proof (rule nth_equalityI)
    show "length (map2 (\<lambda>plane lens.
                   case broadcast_to plane (length lens) of
                     None \<Rightarrow> None
                   | Some rows \<Rightarrow> those (map2 broadcast_to rows lens))
                 prior (replicate C (replicate H W))) = length (map Some prior)"
      by (simp add: len)
  next
    fix i assume "i < length (map2 (\<lambda>plane lens.
                   case broadcast_to plane (length lens) of
                     None \<Rightarrow> None
                   | Some rows \<Rightarrow> those (map2 broadcast_to rows lens))
                 prior (replicate C (replicate H W)))"
    then have i: "i < C" by (simp add: len)
    have pl: "length (prior ! i) = H" "list_all (\<lambda>row. length row = W) (prior ! i)"
      using assms i by (simp_all add: rectangular_def list_all_length)
    show "map2 (\<lambda>plane lens.
                   case broadcast_to plane (length lens) of
                     None \<Rightarrow> None
                   | Some rows \<Rightarrow> those (map2 broadcast_to rows lens))
                 prior (replicate C (replicate H W)) ! i = map Some prior ! i"
      using i len pl by (simp add: broadcast_to_def map2_broadcast_rows those_map_Some)
  qed
  then show ?thesis
    by (simp add: broadcast3_def broadcast_to_def len those_map_Some)
qed

lemma broadcast3_shape:
  assumes "broadcast3 prior (replicate C (replicate H W)) = Some pr"
  shows "rectangular C H W pr"
proof -
  let ?f = "\<lambda>plane lens.
                   case broadcast_to plane (length lens) of
                     None \<Rightarrow> None
                   | Some rows \<Rightarrow> those (map2 broadcast_to rows lens)"
  from assms obtain planes where pl: "broadcast_to prior C = Some planes"
    and th: "those (map2 ?f planes (replicate C (replicate H W))) = Some pr"
    by (auto simp: broadcast3_def split: option.splits)
  have lp: "length planes = C" using pl by (rule broadcast_to_length)
  note n = those_Some_nth [OF th]
  have lpr: "length pr = C" using n lp by simp
  have "length (pr ! i) = H \<and> list_all (\<lambda>row. length row = W) (pr ! i)" if i: "i < C" for i
  proof -
    have "?f (planes ! i) (replicate H W) = Some (pr ! i)"
      using n i lp by simp
    then obtain rows where r: "broadcast_to (planes ! i) H = Some rows"
      and t2: "those (map2 broadcast_to rows (replicate H W)) = Some (pr ! i)"
      by (auto split: option.splits)
    have lr: "length rows = H" using r by (rule broadcast_to_length)
    note m = those_Some_nth [OF t2]
    have "length (pr ! i ! j) = W" if "j < H" for j
    proof -
      have "broadcast_to (rows ! j) W = Some (pr ! i ! j)"
        using m that lr by simp
      then show ?thesis by (rule broadcast_to_length)
    qed
    then show ?thesis using m lr by (simp add: list_all_length)
  qed
  then show ?thesis using lpr by (simp add: rectangular_def list_all_length)
qed

lemma prior_step_rectangular:
  assumes "rectangular C H W img" and "rectangular C H W pr"
  shows "rectangular C H W (renormalize (squash pr img))"
proof (cases "C = 0")
  case True
  then have "img = []" using assms(1) by (simp add: rectangular_def)
  then show ?thesis using True
    by (simp add: squash_def renormalize_def div_dim0_def rectangular_def)
next
  case False
  then show ?thesis
    using assms by (intro renormalize_rectangular squash_rectangular) simp_all
qed

lemma prior_next_rectangular:
  assumes "list_all (rectangular C H W) cur" and "rectangular C H W pr" and "i < length cur"
  shows "list_all (rectangular C H W)
           (map (map (map (map fl_log))) (cur[i := renormalize (squash pr (cur ! i))]))"
proof -
  have "rectangular C H W (cur ! i)" using assms(1,3) by (simp add: list_all_length)
  then have "rectangular C H W (renormalize (squash pr (cur ! i)))"
    using assms(2) by (rule prior_step_rectangular)
  then show ?thesis
    using assms(1,3) by (simp add: list_all_length nth_list_update)
qed

lemma prior_loop_step:
  assumes "broadcast3 prior (replicate C (replicate H W)) = Some pr"
    and "list_all (rectangular C H W) cur" and "i < length cur"
  shows "prior_loop prior (i # js) cur
           = prior_loop prior js
               (map (map (map (map fl_log))) (cur[i := renormalize (squash pr (cur ! i))]))"
proof -
  have "rectangular C H W (cur ! i)" using assms(2,3) by (simp add: list_all_length)
  then have "shape3 (cur ! i) = replicate C (replicate H W)" by (rule rectangular_shape3)
  then show ?thesis using assms(1,3) by simp
qed

lemma prior_loop_returns:
  assumes bc: "broadcast3 prior (replicate C (replicate H W)) = Some pr"
  shows "list_all (rectangular C H W) cur \<Longrightarrow> list_all (\<lambda>j. j < length cur) js \<Longrightarrow>
         \<exists>out. prior_loop prior js cur = Inr out \<and> list_all (rectangular C H W) out
                \<and> length out = length cur"
proof (induction js arbitrary: cur)
  case Nil
  then show ?case by simp
next
  case (Cons i js)
  let ?n = "map (map (map (map fl_log))) (cur[i := renormalize (squash pr (cur ! i))])"
  have i: "i < length cur" and js: "list_all (\<lambda>j. j < length ?n) js"
    using Cons.prems(2) by simp_all
  have rn: "list_all (rectangular C H W) ?n"
    using Cons.prems(1) broadcast3_shape [OF bc] i by (rule prior_next_rectangular)
  from Cons.IH [OF rn js] show ?case
    unfolding prior_loop_step [OF bc Cons.prems(1) i] by simp
qed

lemma prior_loop_append:
  "prior_loop prior (xs @ ys) cur = bind_err (prior_loop prior xs cur) (prior_loop prior ys)"
proof (induction xs arbitrary: cur)
  case Nil
  then show ?case by simp
next
  case (Cons x xs)
  then show ?case by (simp split: option.splits)
qed

lemma prior_loop_keeps_nan:
  assumes bc: "broadcast3 prior (replicate C (replicate H W)) = Some pr"
    and c: "c < C" and h: "h < H" and w: "w < W"
  shows "list_all (rectangular C H W) cur \<Longrightarrow> list_all (\<lambda>j. j < length cur) js \<Longrightarrow>
         i \<notin> set js \<Longrightarrow> i < length cur \<Longrightarrow> cur ! i ! c ! h ! w = NaN \<Longrightarrow>
         prior_loop prior js cur = Inr out \<Longrightarrow> out ! i ! c ! h ! w = NaN"
proof (induction js arbitrary: cur)
  case Nil
  then show ?case by simp
next
  case (Cons j js)
  let ?n = "map (map (map (map fl_log))) (cur[j := renormalize (squash pr (cur ! j))])"
  have j: "j < length cur" "j \<noteq> i" and js: "list_all (\<lambda>j. j < length ?n) js" "i \<notin> set js"
    using Cons.prems(2,3) by auto
  have rn: "list_all (rectangular C H W) ?n"
    using Cons.prems(1) broadcast3_shape [OF bc] j(1) by (rule prior_next_rectangular)
  have ri: "rectangular C H W (cur ! i)"
    using Cons.prems(1,4) by (simp add: list_all_length)
  have "?n ! i = map (map (map fl_log)) (cur ! i)"
    using Cons.prems(4) j by simp
  then have nan: "?n ! i ! c ! h ! w = NaN"
    using Cons.prems(5) c h w by (simp add: nth_map3 [OF ri])
  have run: "prior_loop prior js ?n = Inr out"
    using Cons.prems(6) unfolding prior_loop_step [OF bc Cons.prems(1) j(1)] .
  have "i < length ?n" using Cons.prems(4) by simp
  from Cons.IH [OF rn js this nan run] show ?case .
qed

text \<open>
  C5, amended. Nothing checks the denominator. Whenever the prior broadcasts to the shape
  of the images, prior correction returns a corrected batch, whatever the denominators
  are; and where, at the turn of image \<open>i\<close>, the sum of the sigmoids over the classes
  is zero at a pixel, the corrected score of every class at that pixel of image \<open>i\<close> is
  NaN (\<open>0/0\<close>, which the later logarithms keep).
\<close>

theorem prior_correction_divides_unchecked:
  assumes rect: "list_all (rectangular C H W) output"
    and bc: "broadcast3 prior (replicate C (replicate H W)) = Some pr"
  shows "\<exists>out. prior_correction prior output = Inr out \<and> length out = length output \<and>
           (\<forall>i c h w mid. i < length output \<longrightarrow> c < C \<longrightarrow> h < H \<longrightarrow> w < W \<longrightarrow>
              prior_loop prior [0..<i] (map (map (map (map fl_exp))) output) = Inr mid \<longrightarrow>
              sum_dim0 (squash pr (mid ! i)) ! h ! w = Fin 0 \<longrightarrow>
              out ! i ! c ! h ! w = NaN)"
proof -
  let ?e = "map (map (map (map fl_exp))) output"
  let ?n = "length output"
  have re: "list_all (rectangular C H W) ?e"
    using rect by (simp add: list_all_length)
  have "list_all (\<lambda>j. j < length ?e) [0..<?n]" by (simp add: list_all_iff)
  from prior_loop_returns [OF bc re this] obtain out where
    out: "prior_loop prior [0..<?n] ?e = Inr out" "length out = ?n"
    by auto
  have "out ! i ! c ! h ! w = NaN"
    if i: "i < ?n" and c: "c < C" and h: "h < H" and w: "w < W"
      and mid: "prior_loop prior [0..<i] ?e = Inr mid"
      and zero: "sum_dim0 (squash pr (mid ! i)) ! h ! w = Fin 0"
    for i c h w mid
  proof -
    have "list_all (\<lambda>j. j < length ?e) [0..<i]" using i by (simp add: list_all_iff)
    from prior_loop_returns [OF bc re this] mid
    have rm: "list_all (rectangular C H W) mid" and lm: "length mid = ?n" by auto
    let ?m = "map (map (map (map fl_log))) (mid[i := renormalize (squash pr (mid ! i))])"
    have "[0..<i + (?n - i)] = [0..<i] @ [i..<i + (?n - i)]"
      by (rule upt_add_eq_append) simp
    then have split: "[0..<?n] = [0..<i] @ i # [Suc i..<?n]"
      using i by (simp add: upt_conv_Cons)
    have il: "i < length mid" using i lm by simp
    have "prior_loop prior [0..<?n] ?e = prior_loop prior (i # [Suc i..<?n]) mid"
      unfolding split by (simp add: prior_loop_append mid)
    also have "\<dots> = prior_loop prior [Suc i..<?n] ?m"
      using bc rm il by (rule prior_loop_step)
    finally have run: "prior_loop prior [Suc i..<?n] ?m = Inr out" using out(1) by simp
    have rmi: "rectangular C H W (mid ! i)" using rm il by (simp add: list_all_length)
    have rr: "rectangular C H W (renormalize (squash pr (mid ! i)))"
      using rmi broadcast3_shape [OF bc] by (rule prior_step_rectangular)
    have "renormalize (squash pr (mid ! i)) ! c ! h ! w = NaN"
      using rmi broadcast3_shape [OF bc] c h w zero by (rule renormalize_zero_nan)
    then have nan: "?m ! i ! c ! h ! w = NaN"
      using il c h w by (simp add: nth_map3 [OF rr])
    have r2: "list_all (rectangular C H W) ?m"
      using rm broadcast3_shape [OF bc] il by (rule prior_next_rectangular)
    have "list_all (\<lambda>j. j < length ?m) [Suc i..<?n]" "i \<notin> set [Suc i..<?n]" "i < length ?m"
      using il lm by (simp_all add: list_all_iff)
    from prior_loop_keeps_nan [OF bc c h w r2 this nan run] show ?thesis .
  qed
  then show ?thesis
    using out by (auto simp: prior_correction_def)
qed

lemma zero_images_reach_third:
  "\<exists>mid. prior_loop [[[Fin (1 / 2)]], [[Fin (1 / 2)]]] [0, 1]
        (map (map (map (map fl_exp)))
           [[[[Fin 0]], [[Fin 0]]], [[[Fin 0]], [[Fin 0]]], [[[Fin 0]], [[Fin 0]]]]) = Inr mid
      \<and> mid ! 2 = [[[NInf]], [[NInf]]]"
proof -
  let ?P = "[[[Fin (1 / 2)]], [[Fin (1 / 2)]]]"
  obtain r0 r1 where A: "renormalize (squash ?P [[[Fin 1]], [[Fin 1]]]) = [[[Fin r0]], [[Fin r1]]]"
    and r: "0 < r0" "r0 < 1" "0 < r1" "r1 < 1"
    using renormalize_squash_finite [of "1 / 2" "1 / 2" 1 1] by auto
  obtain s0 s1 where B: "renormalize (squash ?P [[[Fin 0]], [[Fin 0]]]) = [[[Fin s0]], [[Fin s1]]]"
    and s: "0 < s0" "s0 < 1" "0 < s1" "s1 < 1"
    using renormalize_squash_finite [of "1 / 2" "1 / 2" 0 0] by auto
  show ?thesis
    using r s by (simp add: shape3_def broadcast3_one_pixel A B)
qed

theorem prior_correction_divides_unchecked_witness:
  "list_all (rectangular 2 1 1) [[[[Fin 0]], [[Fin 0]]], [[[Fin 0]], [[Fin 0]]], [[[Fin 0]], [[Fin 0]]]]
   \<and> broadcast3 [[[Fin (1 / 2)]], [[Fin (1 / 2)]]] (replicate 2 (replicate 1 1))
        = Some [[[Fin (1 / 2)]], [[Fin (1 / 2)]]]
   \<and> (\<exists>out. prior_correction [[[Fin (1 / 2)]], [[Fin (1 / 2)]]]
               [[[[Fin 0]], [[Fin 0]]], [[[Fin 0]], [[Fin 0]]], [[[Fin 0]], [[Fin 0]]]] = Inr out
          \<and> length out = 3 \<and> out ! 2 ! 1 ! 0 ! 0 = NaN)"
proof -
  let ?P = "[[[Fin (1 / 2)]], [[Fin (1 / 2)]]]"
  let ?Z = "[[[[Fin 0]], [[Fin 0]]], [[[Fin 0]], [[Fin 0]]], [[[Fin 0]], [[Fin 0]]]]"
  have a: "list_all (rectangular 2 1 1) ?Z" by (simp add: rectangular_def)
  have b: "broadcast3 ?P (replicate 2 (replicate 1 1)) = Some ?P"
    by (simp add: numeral_2_eq_2 broadcast3_one_pixel)
  obtain mid where mid: "prior_loop ?P [0..<2] (map (map (map (map fl_exp))) ?Z) = Inr mid"
    and m2: "mid ! 2 = [[[NInf]], [[NInf]]]"
    using zero_images_reach_third by (auto simp: upt_rec numeral_2_eq_2)
  have den: "sum_dim0 (squash ?P (mid ! 2)) ! 0 ! 0 = Fin 0"
    by (simp add: m2 squash_one_pixel fl_sub_def sum_dim0_def pixel_columns_one_pixel)
  from prior_correction_divides_unchecked [OF a b] obtain out where
    out: "prior_correction ?P ?Z = Inr out" "length out = length ?Z"
    and nan: "\<forall>i c h w mid. i < length ?Z \<longrightarrow> c < 2 \<longrightarrow> h < 1 \<longrightarrow> w < 1 \<longrightarrow>
              prior_loop ?P [0..<i] (map (map (map (map fl_exp))) ?Z) = Inr mid \<longrightarrow>
              sum_dim0 (squash ?P (mid ! i)) ! h ! w = Fin 0 \<longrightarrow>
              out ! i ! c ! h ! w = NaN"
    by blast
  have "out ! 2 ! 1 ! 0 ! 0 = NaN"
    using nan [rule_format, of 2 1 0 0 mid] mid den by simp
  then show ?thesis using a b out by simp
qed

text \<open>
  A prior of one value per class (shape \<open>2 x 1 x 1\<close>) is broadcast over an image of
  \<open>2 x 1 x 2\<close>: prior correction returns.
\<close>

theorem prior_correction_broadcasts_class_prior:
  "\<exists>out. prior_correction [[[Fin (1 / 2)]], [[Fin (1 / 2)]]]
            [[[[Fin 0, Fin 0]], [[Fin 1, Fin 1]]]] = Inr out \<and> length out = 1"
proof -
  have a: "list_all (rectangular 2 1 2) [[[[Fin 0, Fin 0]], [[Fin 1, Fin 1]]]]"
    by (simp add: rectangular_def)
  have b: "broadcast3 [[[Fin (1 / 2)]], [[Fin (1 / 2)]]] (replicate 2 (replicate 1 2))
             = Some [[[Fin (1 / 2), Fin (1 / 2)]], [[Fin (1 / 2), Fin (1 / 2)]]]"
    by (simp add: numeral_2_eq_2 broadcast3_def broadcast_to_def)
  obtain out where "prior_correction [[[Fin (1 / 2)]], [[Fin (1 / 2)]]]
            [[[[Fin 0, Fin 0]], [[Fin 1, Fin 1]]]] = Inr out" "length out = 1"
    using prior_loop_returns [OF b, of "map (map (map (map fl_exp))) [[[[Fin 0, Fin 0]], [[Fin 1, Fin 1]]]]" "[0]"]
    by (auto simp: prior_correction_def rectangular_def)
  then show ?thesis by blast
qed

lemma print_log_frame:
  assumes "print_log st ccp cjo lss n bsz name use_acc_dict acc_dict tst = Inr st'"
  shows "params st' = params st \<and> training st' = training st
         \<and> confusion (train_stats st') = confusion (train_stats st)
         \<and> per_class_loss (train_stats st') = per_class_loss (train_stats st)
         \<and> per_class_accuracy (train_stats st') = per_class_accuracy (train_stats st)"
  using assms
  by (cases use_acc_dict; cases tst; clarsimp simp: print_log_def Let_def bind_err_eq_Inr)

lemma train_batch_totals:
  assumes "train_batch e tr s (st, cc, cj, sl) (idx, raw, data, target) = Inr (st', cc', cj', sl')"
    and "\<not> int idx < s"
  shows "accumulate_batch e (num_classes tr) (training st)
           (params st, confusion (train_stats st), cc, cj, sl, per_class_loss (train_stats st))
           (raw, data, target)
         = Inr (params st', confusion (train_stats st'), cc', cj', sl', per_class_loss (train_stats st'))
         \<and> training st' = training st"
proof (cases "log_spacing tr = 0 \<or> save_spacing tr = 0")
  case True
  then show ?thesis
    using assms unfolding train_batch_def
    by (auto simp: Let_def bind_err_eq_Inr py_mod_def)
next
  case nz: False
  show ?thesis
  proof (cases "int idx mod log_spacing tr = 0")
    case True
    then show ?thesis
      using assms nz unfolding train_batch_def accumulate_batch_def
      by (cases "int idx mod save_spacing tr = 0")
         (clarsimp simp: Let_def bind_err_eq_Inr py_mod_def dest!: print_log_frame)+
  next
    case False
    then show ?thesis
      using assms nz unfolding train_batch_def accumulate_batch_def
      by (cases "int idx mod save_spacing tr = 0")
         (clarsimp simp: Let_def bind_err_eq_Inr py_mod_def)+
  qed
qed

lemma train_loop_totals:
  "train_loop e tr s (enumerate k bs) (st, cc, cj, sl) = Inr (st', cc', cj', sl') \<Longrightarrow>
   \<not> int k < s \<Longrightarrow>
   accumulate e (num_classes tr) (training st) bs
       (params st, confusion (train_stats st), cc, cj, sl, per_class_loss (train_stats st))
     = Inr (params st', confusion (train_stats st'), cc', cj', sl', per_class_loss (train_stats st'))
   \<and> training st' = training st"
proof (induction bs arbitrary: k st cc cj sl)
  case Nil
  then show ?case by simp
next
  case (Cons b bs)
  obtain raw data target where b: "b = (raw, data, target)" by (cases b) auto
  from Cons.prems(1) obtain st1 cc1 cj1 sl1 where
    step: "train_batch e tr s (st, cc, cj, sl) (k, raw, data, target) = Inr (st1, cc1, cj1, sl1)"
    and rest: "train_loop e tr s (enumerate (Suc k) bs) (st1, cc1, cj1, sl1) = Inr (st', cc', cj', sl')"
    by (auto simp: bind_err_eq_Inr b)
  note s1 = train_batch_totals [OF step Cons.prems(2)]
  have "\<not> int (Suc k) < s" using Cons.prems(2) by simp
  note r = Cons.IH [OF rest this]
  show ?case
    using s1 r by (simp add: b)
qed

text \<open>
  C7. \<open>train\<close> with \<open>start_index\<close>: the loop over all batches is the loop over the
  batches from \<open>start_index\<close> on (with their own indices), whatever the loop variables,
  so the batches before leave no mark. A run that returns has called the network on
  exactly the batches from \<open>start_index\<close> on, in order; its trace holds the optimizer
  steps, logs and checkpoints of those batches only; and the parameters, the confusion
  matrix, the per-class loss vectors and the loop's per-class counts and summed loss at
  its end are what the batches from \<open>start_index\<close> on add to the values at its start.
\<close>

theorem train_resumes_at_start_index:
  assumes "train e tr train_loader epoch start_index st = Inr st'"
  shows "train_loop e tr start_index (enumerate 0 train_loader) vars
           = train_loop e tr start_index
               (enumerate (nat start_index) (drop (nat start_index) train_loader)) vars
         \<and> map kind_of (trace st') = map kind_of (trace st)
              @ concat (map (train_batch_kinds tr) [nat start_index..<length train_loader])
         \<and> forwarded (trace st') = forwarded (trace st)
              @ map (\<lambda>(raw, data, target). data) (drop (nat start_index) train_loader)
         \<and> (\<exists>class_correct class_jacard_or sum_loss.
               train_loop e tr start_index (enumerate 0 train_loader)
                 (st\<lparr>training := True\<rparr>, replicate (num_classes tr) 0,
                  replicate (num_classes tr) 0, Fin 0)
                 = Inr (st', class_correct, class_jacard_or, sum_loss)
             \<and> accumulate e (num_classes tr) True (drop (nat start_index) train_loader)
                 (params st, confusion (train_stats st), replicate (num_classes tr) 0,
                  replicate (num_classes tr) 0, Fin 0, per_class_loss (train_stats st))
                 = Inr (params st', confusion (train_stats st'), class_correct, class_jacard_or,
                        sum_loss, per_class_loss (train_stats st')))"
proof -
  let ?k = "nat start_index"
  let ?v0 = "(st\<lparr>training := True\<rparr>, replicate (num_classes tr) (0::int),
              replicate (num_classes tr) (0::int), Fin 0)"
  from assms obtain cc cj sl where
    whole: "train_loop e tr start_index (enumerate 0 train_loader) ?v0 = Inr (st', cc, cj, sl)"
    by (auto simp: train_def bind_err_eq_Inr)
  then have run: "train_loop e tr start_index (enumerate ?k (drop ?k train_loader)) ?v0
                    = Inr (st', cc, cj, sl)"
    by (simp add: train_loop_resume)
  have ge: "\<not> int ?k < start_index" by simp
  note r = train_loop_run [OF run ge]
  note t = train_loop_totals [OF run ge]
  have "[?k..<?k + length (drop ?k train_loader)] = [?k..<length train_loader]"
    by (cases "?k \<le> length train_loader") simp_all
  with r have tr: "map kind_of (trace st') = map kind_of (trace st)
              @ concat (map (train_batch_kinds tr) [?k..<length train_loader])"
    "forwarded (trace st') = forwarded (trace st)
              @ map (\<lambda>(raw, data, target). data) (drop ?k train_loader)"
    by simp_all
  have tot: "accumulate e (num_classes tr) True (drop ?k train_loader)
                 (params st, confusion (train_stats st), replicate (num_classes tr) 0,
                  replicate (num_classes tr) 0, Fin 0, per_class_loss (train_stats st))
                 = Inr (params st', confusion (train_stats st'), cc, cj, sl,
                        per_class_loss (train_stats st'))"
    using t by simp
  show ?thesis
    using tr whole tot by (simp add: train_loop_resume)
qed

lemma three_batches_from_one:
  "accumulate identity_net 2 True [two_pixel_batch, two_pixel_batch]
     ((), [[0, 0], [0, 0]], [0, 0], [0, 0], Fin 0, [])
   = Inr ((), [[2, 0], [0, 2]], [2, 2], [2, 2], Fin 4, [[Fin 1, Fin 1], [Fin 1, Fin 1]])"
  by (simp add: accumulate_batch_def run_simps)

theorem train_resumes_at_start_index_witness:
  "\<exists>st'. train identity_net small_trainer [two_pixel_batch, two_pixel_batch, two_pixel_batch] 0 1 (fresh_state 2) = Inr st'
      \<and> map kind_of (trace st')
          = [KForward, KOptimizerStep, KForward, KOptimizerStep, KLossVec, KReport, KTable, KSaving, KSave]
      \<and> forwarded (trace st') = [[[[[Fin 1, Fin 0]], [[Fin 0, Fin 1]]]], [[[[Fin 1, Fin 0]], [[Fin 0, Fin 1]]]]]
      \<and> confusion (train_stats st') = [[2, 0], [0, 2]]
      \<and> per_class_loss (train_stats st') = [[Fin 1, Fin 1], [Fin 1, Fin 1]]
      \<and> train_loop identity_net small_trainer 1
           (enumerate 0 [two_pixel_batch, two_pixel_batch, two_pixel_batch])
           ((fresh_state 2)\<lparr>training := True\<rparr>, [0, 0], [0, 0], Fin 0)
           = Inr (st', [2, 2], [2, 2], Fin 4)"
proof -
  obtain st' where r: "train identity_net small_trainer [two_pixel_batch, two_pixel_batch, two_pixel_batch] 0 1 (fresh_state 2) = Inr st'"
    by (simp add: run_simps enumerate_eq_zip)
  have n: "num_classes small_trainer = 2" by (simp add: small_trainer_def)
  have f: "params (fresh_state 2) = ()" "confusion (train_stats (fresh_state 2)) = [[0, 0], [0, 0]]"
    "per_class_loss (train_stats (fresh_state 2)) = []"
    by (simp_all add: fresh_state_def fresh_stats_def numeral_2_eq_2)
  have k: "map (train_batch_kinds small_trainer) [nat 1..<length [two_pixel_batch, two_pixel_batch, two_pixel_batch]]
             = [[KForward, KOptimizerStep], [KForward, KOptimizerStep, KLossVec, KReport, KTable, KSaving, KSave]]"
    by (simp add: train_batch_kinds_def small_trainer_def upt_rec)
  have z: "replicate 2 (0::int) = [0, 0]" by (simp add: numeral_2_eq_2)
  have dr: "drop (nat 1) [two_pixel_batch, two_pixel_batch, two_pixel_batch]
              = [two_pixel_batch, two_pixel_batch]" by simp
  note T = train_resumes_at_start_index [OF r,
      where vars = "((fresh_state 2)\<lparr>training := True\<rparr>, [0, 0], [0, 0], Fin 0)"]
  from T obtain cc cj sl where
    kinds: "map kind_of (trace st') = map kind_of (trace (fresh_state 2))
        @ concat [[KForward, KOptimizerStep], [KForward, KOptimizerStep, KLossVec, KReport, KTable, KSaving, KSave]]"
    and fw: "forwarded (trace st') = forwarded (trace (fresh_state 2))
        @ map (\<lambda>(raw, data, target). data) [two_pixel_batch, two_pixel_batch]"
    and loop: "train_loop identity_net small_trainer 1
           (enumerate 0 [two_pixel_batch, two_pixel_batch, two_pixel_batch])
           ((fresh_state 2)\<lparr>training := True\<rparr>, [0, 0], [0, 0], Fin 0)
           = Inr (st', cc, cj, sl)"
    and acc: "Inr ((), [[2, 0], [0, 2]], [2, 2], [2, 2], Fin 4, [[Fin 1, Fin 1], [Fin 1, Fin 1]])
           = (Inr (params st', confusion (train_stats st'), cc, cj, sl, per_class_loss (train_stats st'))
                :: error + unit totals)"
    unfolding n f k z dr three_batches_from_one by (elim conjE exE) (rule that)
  from acc have vals: "confusion (train_stats st') = [[2, 0], [0, 2]]" "cc = [2, 2]" "cj = [2, 2]"
    "sl = Fin 4" "per_class_loss (train_stats st') = [[Fin 1, Fin 1], [Fin 1, Fin 1]]"
    by auto
  have kinds': "map kind_of (trace st')
          = [KForward, KOptimizerStep, KForward, KOptimizerStep, KLossVec, KReport, KTable, KSaving, KSave]"
    using kinds by (simp add: fresh_state_def)
  have fw': "forwarded (trace st') = [[[[[Fin 1, Fin 0]], [[Fin 0, Fin 1]]]], [[[[Fin 1, Fin 0]], [[Fin 0, Fin 1]]]]]"
    using fw by (simp add: two_pixel_batch_def fresh_state_def)
  have loop': "train_loop identity_net small_trainer 1
           (enumerate 0 [two_pixel_batch, two_pixel_batch, two_pixel_batch])
           ((fresh_state 2)\<lparr>training := True\<rparr>, [0, 0], [0, 0], Fin 0)
           = Inr (st', [2, 2], [2, 2], Fin 4)"
    using loop unfolding vals .
  show ?thesis
    by (intro exI [of _ st'] conjI) (fact r kinds' fw' vals(1) vals(5) loop')+
qed

text \<open>
  With C2, in the exact arithmetic of this theory (a float32 sigmoid saturates at 1 and
  can tie two classes, which is outside it): for a batch of a single image with finite
  scores and a uniform penalty, prior correction returns and the predicted label map is
  the one of the raw scores, the correction being at every pixel a strictly increasing
  function of the score.
\<close>

theorem single_image_prior_correction_keeps_argmax:
  assumes rect: "rectangular C H W img" and fin: "all_finite img" and C: "0 < C"
  shows "\<exists>out. prior_correction (uniform_penalty C H W k) [img] = Inr [out]
            \<and> argmax_dim1 [out] = argmax_dim1 [img]"
proof -
  let ?P = "uniform_penalty C H W k"
  let ?e = "map (map (map fl_exp)) img"
  let ?s = "squash ?P ?e"
  let ?out = "map (map (map fl_log)) (renormalize ?s)"
  have rP: "rectangular C H W ?P" by (rule rectangular_uniform_penalty)
  have re: "rectangular C H W ?e" using rect by simp
  have rs: "rectangular C H W ?s" using re rP by (rule squash_rectangular)
  have rn: "rectangular C H W (renormalize ?s)" using rs C by (rule renormalize_rectangular)
  have ro: "rectangular C H W ?out" using rn by simp
  have "broadcast3 ?P (shape3 ?e) = Some ?P"
    using re rP by (simp add: rectangular_shape3 broadcast3_rectangular del: shape3_map3)
  then have run: "prior_correction ?P [img] = Inr [?out]"
    by (simp add: prior_correction_def del: shape3_map3)
  have cols: "argmax (pixel_columns ?out ! h ! w) = argmax (pixel_columns img ! h ! w)"
    if h: "h < H" and w: "w < W" for h w
  proof -
    define x where "x c = fl_val (img ! c ! h ! w)" for c
    define sg where "sg c = sigmoid (exp (x c) - k)" for c
    have img: "img ! c ! h ! w = Fin (x c)" if "c < C" for c
    proof -
      have "is_fin (img ! c ! h ! w)"
        using fin rect that h w by (simp add: all_finite_def rectangular_def list_all_length)
      then show ?thesis unfolding x_def by (rule is_fin_val)
    qed
    have s: "?s ! c ! h ! w = Fin (sg c)" if "c < C" for c
    proof -
      have "?s ! c ! h ! w = fl_sigmoid (fl_sub (?e ! c ! h ! w) (?P ! c ! h ! w))"
        using re rP that h w by (rule squash_nth)
      moreover have "?e ! c ! h ! w = Fin (exp (x c))"
        using that h w by (simp add: nth_map3 [OF rect] img)
      moreover have "?P ! c ! h ! w = Fin k"
        using that h w by (simp add: uniform_penalty_def)
      ultimately show ?thesis by (simp add: fl_sub_def sg_def)
    qed
    have meq: "map (\<lambda>c. ?s ! c ! h ! w) [0..<C] = map (\<lambda>c. Fin (sg c)) [0..<C]"
      by (rule map_cong) (simp_all add: s)
    obtain S where S: "fl_sum (map (\<lambda>c. Fin (sg c)) [0..<C]) = Fin S" "0 < S"
      using fl_sum_Fin_pos [of "[0..<C]" sg] C by (auto simp: list_all_iff sg_def sigmoid_pos)
    have den: "sum_dim0 ?s ! h ! w = Fin S"
      unfolding sum_dim0_nth(1) [OF rs C h w] meq by (rule S(1))
    define g where "g y = ln (sigmoid (exp y - k) / S)" for y
    have out: "?out ! c ! h ! w = Fin (g (x c))" if "c < C" for c
    proof -
      have "renormalize ?s ! c ! h ! w = fl_div (?s ! c ! h ! w) (sum_dim0 ?s ! h ! w)"
        unfolding renormalize_def Let_def
        using rs that h w sum_dim0_nth(2,3) [OF rs C h w] by (rule div_dim0_nth)
      then have "renormalize ?s ! c ! h ! w = Fin (sg c / S)"
        using S(2) by (simp add: s [OF that] den)
      moreover have "0 < sg c / S" using S(2) by (simp add: sg_def sigmoid_pos)
      ultimately show ?thesis
        using that h w by (simp add: nth_map3 [OF rn] g_def sg_def)
    qed
    have "strict_mono g"
    proof (rule strict_monoI)
      fix a b :: real
      assume "a < b"
      then have "sigmoid (exp a - k) < sigmoid (exp b - k)"
        by (intro sigmoid_strict_mono) simp
      then have "sigmoid (exp a - k) / S < sigmoid (exp b - k) / S"
        using S(2) by (simp add: divide_strict_right_mono)
      moreover have "0 < sigmoid (exp a - k) / S" using S(2) by (simp add: sigmoid_pos)
      ultimately show "g a < g b" unfolding g_def by simp
    qed
    then have mono: "a < b \<longleftrightarrow> g a < g b" for a b
      by (simp add: strict_mono_less)
    have "pixel_columns ?out ! h ! w = map (\<lambda>c. ?out ! c ! h ! w) [0..<C]"
      using ro C h w by (rule pixel_columns_nth(1))
    also have "\<dots> = map (\<lambda>y. Fin (g y)) (map x [0..<C])"
      by (simp add: out)
    finally have a: "pixel_columns ?out ! h ! w = map (\<lambda>y. Fin (g y)) (map x [0..<C])" .
    have "pixel_columns img ! h ! w = map (\<lambda>c. img ! c ! h ! w) [0..<C]"
      using rect C h w by (rule pixel_columns_nth(1))
    also have "\<dots> = map Fin (map x [0..<C])"
      by (simp add: img)
    finally have b: "pixel_columns img ! h ! w = map Fin (map x [0..<C])" .
    show ?thesis
      unfolding a b using mono by (rule argmax_mono)
  qed
  have "map (map (\<lambda>col. int (argmax col))) (pixel_columns ?out)
          = map (map (\<lambda>col. int (argmax col))) (pixel_columns img)"
  proof (rule nth_equalityI)
    show "length (map (map (\<lambda>col. int (argmax col))) (pixel_columns ?out))
            = length (map (map (\<lambda>col. int (argmax col))) (pixel_columns img))"
      by (simp add: pixel_columns_length(1) [OF ro C] pixel_columns_length(1) [OF rect C])
  next
    fix h assume "h < length (map (map (\<lambda>col. int (argmax col))) (pixel_columns ?out))"
    then have h: "h < H" by (simp add: pixel_columns_length(1) [OF ro C])
    have "map (\<lambda>col. int (argmax col)) (pixel_columns ?out ! h)
            = map (\<lambda>col. int (argmax col)) (pixel_columns img ! h)"
      by (rule nth_equalityI)
         (simp_all add: pixel_columns_length(2) [OF ro C h] pixel_columns_length(2) [OF rect C h]
            cols [OF h])
    then show "map (map (\<lambda>col. int (argmax col))) (pixel_columns ?out) ! h
                 = map (map (\<lambda>col. int (argmax col))) (pixel_columns img) ! h"
      using h by (simp add: pixel_columns_length(1) [OF ro C] pixel_columns_length(1) [OF rect C])
  qed
  then show ?thesis using run C rect ro
    by (auto simp: argmax_dim1_def rectangular_def)
qed

theorem single_image_prior_correction_keeps_argmax_witness:
  "rectangular 2 1 1 [[[Fin 0]], [[Fin 1]]] \<and> all_finite [[[Fin 0]], [[Fin 1]]] \<and> (0::nat) < 2
   \<and> (\<exists>out. prior_correction (uniform_penalty 2 1 1 (1 / 2)) [[[[Fin 0]], [[Fin 1]]]] = Inr [out]
          \<and> argmax_dim1 [out] = Inr [[[1]]])"
proof -
  have a: "rectangular 2 1 1 [[[Fin 0]], [[Fin 1]]]" by (simp add: rectangular_def)
  have b: "all_finite [[[Fin 0]], [[Fin 1]]]" by (simp add: all_finite_def)
  have c: "argmax_dim1 [[[[Fin 0]], [[Fin 1]]]] = Inr [[[1]]]"
    by (simp add: argmax_dim1_def pixel_columns_one_pixel argmax_def beats_def)
  show ?thesis
    using single_image_prior_correction_keeps_argmax [OF a b, of "1 / 2"] a b c by simp
qed

end
